theory Spec2Isabelle
  imports Main "HOL-Library.Word"
begin

unbundle bit_operations_syntax

section \<open>Go values: bytes, integers, panics\<close>

text \<open>
  A Go \<open>byte\<close> is a \<^typ>\<open>char\<close> (eight bits), so a Go \<open>string\<close> and the
  elements of a \<open>[]byte\<close> are \<^typ>\<open>string\<close>. \<open>uint32\<close> is \<^typ>\<open>32 word\<close>.
  Go's \<open>int\<close> is taken to be 64 bits wide; every \<open>int\<close> the package computes is a sum
  or difference of a few values below \<open>2 ^ 33\<close>, so it is modelled as \<^typ>\<open>int\<close>.
  \<open>int64\<close> and \<open>uint64\<close> results of \<open>strconv\<close> are \<^typ>\<open>int\<close> and \<^typ>\<open>nat\<close>
  with the bounds of the conversion written out.

  A call either returns or panics; a run-time panic of Go is a value here.
\<close>

type_synonym byte = char
type_synonym uint32 = "32 word"

datatype go_panic =
    IndexOutOfRange int nat   \<comment> \<open>index expression \<open>a[i]\<close>: the index and \<open>len(a)\<close>\<close>
  | SliceBounds               \<comment> \<open>slice expression \<open>a[lo:hi]\<close> out of range\<close>
  | MakeSliceLen              \<comment> \<open>\<open>make([]T, n)\<close> with negative \<open>n\<close>\<close>
  | NilDereference            \<comment> \<open>field access through a nil pointer\<close>
  | PanicMsg string           \<comment> \<open>an explicit \<open>panic(msg)\<close>\<close>

datatype 'a outcome = Returns 'a | Panics go_panic

text \<open>Go's integer division truncates towards zero.\<close>

definition go_div :: "int \<Rightarrow> int \<Rightarrow> int" where
  "go_div a b = sgn a * sgn b * (\<bar>a\<bar> div \<bar>b\<bar>)"

text \<open>The index expression \<open>a[i]\<close> on a slice of length \<open>length a\<close>.\<close>

definition index_at :: "'a list \<Rightarrow> int \<Rightarrow> 'a outcome" where
  "index_at a i =
     (if 0 \<le> i \<and> i < int (length a) then Returns (a ! nat i)
      else Panics (IndexOutOfRange i (length a)))"

text \<open>The assignment \<open>a[i] = v\<close> to an element of a slice.\<close>

definition store_at :: "'a list \<Rightarrow> int \<Rightarrow> 'a \<Rightarrow> 'a list outcome" where
  "store_at a i v =
     (if 0 \<le> i \<and> i < int (length a) then Returns (a[nat i := v])
      else Panics (IndexOutOfRange i (length a)))"

section \<open>Standard library: \<open>bytes.Split\<close> and \<open>strconv\<close>\<close>

text \<open>
  \<open>bytes.Split(s, []byte("\t"))\<close>: all the subslices of \<open>s\<close> between tab bytes, so one
  more field than there are tabs (a single empty field for the empty input). As in the
  library, the input is cut at the first tab and the rest is split in turn.
\<close>

definition tab :: byte where
  "tab = CHR 0x09"

function split_tab :: "string \<Rightarrow> string list" where
  "split_tab s =
     (case dropWhile (\<lambda>c. c \<noteq> tab) s of
        [] \<Rightarrow> [s]
      | _ # rest \<Rightarrow> takeWhile (\<lambda>c. c \<noteq> tab) s # split_tab rest)"
  by pat_completeness auto
termination
proof (relation "measure length")
  fix s :: string and x rest
  assume "dropWhile (\<lambda>c. c \<noteq> tab) s = x # rest"
  then have "length (x # rest) \<le> length s"
    by (metis length_dropWhile_le)
  then show "(rest, s) \<in> measure length" by simp
qed simp

declare split_tab.simps [simp del]

text \<open>
  \<open>strconv.ParseUint(s, 10, 64)\<close> and \<open>strconv.ParseInt(s, 10, 64)\<close>, after the library's
  code and documentation: on a syntax error the value returned is \<open>0\<close>; on a range error
  it is the largest magnitude of the type and sign. Both return the value together with
  the error.
\<close>

datatype strconv_error = ErrSyntax | ErrRange

definition maxUint64 :: nat where
  "maxUint64 = 2 ^ 64 - 1"

definition is_digit :: "byte \<Rightarrow> bool" where
  "is_digit c = (48 \<le> (of_char c :: nat) \<and> (of_char c :: nat) \<le> 57)"

definition digit_val :: "byte \<Rightarrow> nat" where
  "digit_val c = of_char c - 48"

fun ParseUint_loop :: "string \<Rightarrow> nat \<Rightarrow> nat \<times> strconv_error option" where
  "ParseUint_loop [] n = (n, None)"
| "ParseUint_loop (c # cs) n =
     (if \<not> is_digit c then (0, Some ErrSyntax)
      else if n \<ge> maxUint64 div 10 + 1 then (maxUint64, Some ErrRange)
      else if n * 10 + digit_val c > maxUint64 then (maxUint64, Some ErrRange)
      else ParseUint_loop cs (n * 10 + digit_val c))"

definition ParseUint :: "string \<Rightarrow> nat \<times> strconv_error option" where
  "ParseUint s = (if s = [] then (0, Some ErrSyntax) else ParseUint_loop s 0)"

definition ParseInt :: "string \<Rightarrow> int \<times> strconv_error option" where
  "ParseInt s =
     (if s = [] then (0, Some ErrSyntax)
      else
        let neg = (hd s = CHR ''-'');
            s1 = (if hd s = CHR ''+'' \<or> hd s = CHR ''-'' then tl s else s);
            (un, err) = ParseUint s1
        in if err = Some ErrSyntax then (0, Some ErrSyntax)
           else if \<not> neg \<and> un \<ge> 2 ^ 63 then (2 ^ 63 - 1, Some ErrRange)
           else if neg \<and> un > 2 ^ 63 then (- (2 ^ 63), Some ErrRange)
           else (if neg then - int un else int un, None))"

section \<open>The record parser: \<open>newLocationInfo\<close>\<close>

definition Null :: string where
  "Null = ''N/A''"

record LocationInfo =
  Country :: string
  Region :: string
  City :: string
  Isp :: string
  Country_id :: int
  Province_id :: int
  City_id :: int
  Isp_id :: int
  Location_id :: nat

text \<open>The zero value of the struct: what a composite literal leaves in the fields it omits.\<close>

definition zeroLocationInfo :: LocationInfo where
  "zeroLocationInfo =
     \<lparr>Country = [], Region = [], City = [], Isp = [],
      Country_id = 0, Province_id = 0, City_id = 0, Isp_id = 0, Location_id = 0\<rparr>"

text \<open>The four \<open>if len(info.X) == 0\<close> statements that end \<open>newLocationInfo\<close>.\<close>

definition fillNull :: "LocationInfo \<Rightarrow> LocationInfo" where
  "fillNull info =
     (let i1 = (if length (Country info) = 0 then info\<lparr>Country := Null\<rparr> else info);
          i2 = (if length (Region i1) = 0 then i1\<lparr>Region := Null\<rparr> else i1);
          i3 = (if length (City i2) = 0 then i2\<lparr>City := Null\<rparr> else i2)
      in if length (Isp i3) = 0 then i3\<lparr>Isp := Null\<rparr> else i3)"

definition newLocationInfo :: "string \<Rightarrow> LocationInfo outcome" where
  "newLocationInfo str =
     (let fields = split_tab str in
      if length fields = 4 then
        Returns (fillNull (zeroLocationInfo
          \<lparr>Country := fields ! 0, Region := fields ! 1, City := fields ! 2\<rparr>))
      else if length fields = 5 then
        Returns (fillNull (zeroLocationInfo
          \<lparr>Country := fields ! 0, Region := fields ! 1, City := fields ! 2,
           Isp := fields ! 4\<rparr>))
      else if length fields = 10 then
        (let IntCountry_id = fst (ParseInt (fields ! 4));
             IntProvince_id = fst (ParseInt (fields ! 5));
             IntCity_id = fst (ParseInt (fields ! 6));
             IntIsp_id = fst (ParseInt (fields ! 7));
             IntLocation_id = fst (ParseUint (fields ! 8))
         in Returns (fillNull
              \<lparr>Country = fields ! 0, Region = fields ! 1, City = fields ! 2,
               Isp = fields ! 3, Country_id = IntCountry_id, Province_id = IntProvince_id,
               City_id = IntCity_id, Isp_id = IntIsp_id, Location_id = IntLocation_id\<rparr>))
      else Panics (PanicMsg (''unexpected ip info:'' @ str)))"

section \<open>Byte slices and \<open>encoding/binary\<close>\<close>

text \<open>
  A Go slice has a length and a capacity: \<open>elems\<close> are the bytes below the length,
  \<open>spare\<close> the bytes of the backing array between length and capacity. An index
  expression is checked against the length, the upper bound of a slice expression against
  the capacity, and the lower bound of \<open>s[lo:]\<close> against the length.
\<close>

record bslice =
  elems :: string
  spare :: string

definition slice_len :: "bslice \<Rightarrow> int" where
  "slice_len s = int (length (elems s))"

definition slice_cap :: "bslice \<Rightarrow> int" where
  "slice_cap s = int (length (elems s) + length (spare s))"

definition slice_to :: "bslice \<Rightarrow> int \<Rightarrow> bslice outcome" where
  \<comment> \<open>\<open>s[:hi]\<close>\<close>
  "slice_to s hi =
     (if 0 \<le> hi \<and> hi \<le> slice_cap s
      then Returns \<lparr>elems = take (nat hi) (elems s @ spare s),
                    spare = drop (nat hi) (elems s @ spare s)\<rparr>
      else Panics SliceBounds)"

definition slice_from :: "bslice \<Rightarrow> int \<Rightarrow> bslice outcome" where
  \<comment> \<open>\<open>s[lo:]\<close>\<close>
  "slice_from s lo =
     (if 0 \<le> lo \<and> lo \<le> slice_len s
      then Returns \<lparr>elems = drop (nat lo) (elems s), spare = spare s\<rparr>
      else Panics SliceBounds)"

definition slice_range :: "bslice \<Rightarrow> int \<Rightarrow> int \<Rightarrow> bslice outcome" where
  \<comment> \<open>\<open>s[lo:hi]\<close>\<close>
  "slice_range s lo hi =
     (if 0 \<le> lo \<and> lo \<le> hi \<and> hi \<le> slice_cap s
      then Returns \<lparr>elems = take (nat (hi - lo)) (drop (nat lo) (elems s @ spare s)),
                    spare = drop (nat hi) (elems s @ spare s)\<rparr>
      else Panics SliceBounds)"

text \<open>
  \<open>binary.BigEndian.Uint32\<close> and \<open>binary.LittleEndian.Uint32\<close>: both read \<open>b[3]\<close>
  first, which panics on fewer than four bytes.
\<close>

definition BigEndian_Uint32 :: "string \<Rightarrow> uint32 outcome" where
  "BigEndian_Uint32 b =
     (if length b \<le> 3 then Panics (IndexOutOfRange 3 (length b))
      else Returns (of_char (b ! 3) OR push_bit 8 (of_char (b ! 2)) OR
                    push_bit 16 (of_char (b ! 1)) OR push_bit 24 (of_char (b ! 0))))"

definition LittleEndian_Uint32 :: "string \<Rightarrow> uint32 outcome" where
  "LittleEndian_Uint32 b =
     (if length b \<le> 3 then Panics (IndexOutOfRange 3 (length b))
      else Returns (of_char (b ! 0) OR push_bit 8 (of_char (b ! 1)) OR
                    push_bit 16 (of_char (b ! 2)) OR push_bit 24 (of_char (b ! 3))))"

section \<open>The Locator and its decoder\<close>

record Locator =
  textData :: bslice
  indexData1 :: "uint32 list"
  indexData2 :: "int list"
  indexData3 :: "int list"
  index :: "int list"

text \<open>\<open>new(Locator)\<close>: every slice is nil.\<close>

definition zeroLocator :: Locator where
  "zeroLocator =
     \<lparr>textData = \<lparr>elems = [], spare = []\<rparr>, indexData1 = [], indexData2 = [],
      indexData3 = [], index = []\<rparr>"

text \<open>The first loop of \<open>init\<close>, from \<open>i\<close> on: the 256 little-endian prefix entries.\<close>

function init_index_loop :: "Locator \<Rightarrow> bslice \<Rightarrow> int \<Rightarrow> Locator outcome" where
  "init_index_loop loc data i =
     (if i < 256 then
        (case slice_range data (4 + i * 4) (4 + i * 4 + 4) of
           Panics p \<Rightarrow> Panics p
         | Returns b \<Rightarrow>
        (case LittleEndian_Uint32 (elems b) of
           Panics p \<Rightarrow> Panics p
         | Returns w \<Rightarrow>
        (case store_at (index loc) i (uint w) of
           Panics p \<Rightarrow> Panics p
         | Returns idx \<Rightarrow> init_index_loop (loc\<lparr>index := idx\<rparr>) data (i + 1))))
      else Returns loc)"
  by pat_completeness auto
termination
  by (relation "measure (\<lambda>(loc, data, i). nat (256 - i))") auto

declare init_index_loop.simps [simp del]

text \<open>
  The second loop of \<open>init\<close>, from \<open>i\<close> on: the \<open>nidx\<close> eight-byte entries, each a
  big-endian range bound, a three-byte little-endian offset and a length byte.
\<close>

function init_entry_loop :: "Locator \<Rightarrow> bslice \<Rightarrow> int \<Rightarrow> int \<Rightarrow> Locator outcome" where
  "init_entry_loop loc data nidx i =
     (if i < nidx then
        (case slice_range data (4 + 1024 + i * 8) (4 + 1024 + i * 8 + 4) of
           Panics p \<Rightarrow> Panics p
         | Returns b \<Rightarrow>
        (case BigEndian_Uint32 (elems b) of
           Panics p \<Rightarrow> Panics p
         | Returns w \<Rightarrow>
        (case store_at (indexData1 loc) i w of
           Panics p \<Rightarrow> Panics p
         | Returns d1 \<Rightarrow>
        (case index_at (elems data) (4 + 1024 + i * 8 + 4) of
           Panics p \<Rightarrow> Panics p
         | Returns b4 \<Rightarrow>
        (case index_at (elems data) (4 + 1024 + i * 8 + 5) of
           Panics p \<Rightarrow> Panics p
         | Returns b5 \<Rightarrow>
        (case index_at (elems data) (4 + 1024 + i * 8 + 6) of
           Panics p \<Rightarrow> Panics p
         | Returns b6 \<Rightarrow>
        (case store_at (indexData2 loc) i
                (uint ((of_char b4 :: uint32) OR push_bit 8 (of_char b5) OR
                       push_bit 16 (of_char b6))) of
           Panics p \<Rightarrow> Panics p
         | Returns d2 \<Rightarrow>
        (case index_at (elems data) (4 + 1024 + i * 8 + 7) of
           Panics p \<Rightarrow> Panics p
         | Returns b7 \<Rightarrow>
        (case store_at (indexData3 loc) i (of_char b7) of
           Panics p \<Rightarrow> Panics p
         | Returns d3 \<Rightarrow>
             init_entry_loop
               (loc\<lparr>indexData1 := d1, indexData2 := d2, indexData3 := d3\<rparr>)
               data nidx (i + 1))))))))))
      else Returns loc)"
  by pat_completeness auto
termination
  by (relation "measure (\<lambda>(loc, data, nidx, i). nat (nidx - i))") auto

declare init_entry_loop.simps [simp del]

text \<open>The first statement of \<open>init\<close>: \<open>textoff := int(binary.BigEndian.Uint32(data[:4]))\<close>.\<close>

definition read_textoff :: "bslice \<Rightarrow> int outcome" where
  "read_textoff data =
     (case slice_to data 4 of
        Panics p \<Rightarrow> Panics p
      | Returns b \<Rightarrow>
          (case BigEndian_Uint32 (elems b) of
             Panics p \<Rightarrow> Panics p
           | Returns w \<Rightarrow> Returns (uint w)))"

definition Locator_init :: "Locator \<Rightarrow> bslice \<Rightarrow> Locator outcome" where
  "Locator_init loc data =
     (case read_textoff data of
        Panics p \<Rightarrow> Panics p
      | Returns textoff \<Rightarrow>
     (case slice_from data (textoff - 1024) of
        Panics p \<Rightarrow> Panics p
      | Returns text \<Rightarrow>
     (case init_index_loop (loc\<lparr>textData := text, index := replicate 256 0\<rparr>) data 0 of
        Panics p \<Rightarrow> Panics p
      | Returns loc1 \<Rightarrow>
     (let nidx = go_div (textoff - 4 - 1024 - 1024) 8 in
      if nidx < 0 then Panics MakeSliceLen
      else init_entry_loop
             (loc1\<lparr>indexData1 := replicate (nat nidx) 0,
                   indexData2 := replicate (nat nidx) 0,
                   indexData3 := replicate (nat nidx) 0\<rparr>)
             data nidx 0))))"

text \<open>
  The four bytes of prefix entry \<open>k\<close> in the backing array of a buffer, for stating
  what the first loop decodes.
\<close>

definition prefix_bytes :: "bslice \<Rightarrow> nat \<Rightarrow> string" where
  "prefix_bytes data k = take 4 (drop (4 + k * 4) (elems data @ spare data))"

definition NewLocatorWithData :: "bslice \<Rightarrow> Locator outcome" where
  "NewLocatorWithData data = Locator_init zeroLocator data"

text \<open>
  \<open>ioutil.ReadFile\<close> is the file system's answer for a path: an error or the bytes.
\<close>

datatype go_error = ErrInvalidIp | ReadFileError

type_synonym filesystem = "string \<Rightarrow> go_error + bslice"

definition NewLocator ::
    "filesystem \<Rightarrow> string \<Rightarrow> (Locator option \<times> go_error option) outcome" where
  "NewLocator fs dataFile =
     (case fs dataFile of
        Inl err \<Rightarrow> Returns (None, Some err)
      | Inr data \<Rightarrow>
          (case NewLocatorWithData data of
             Panics p \<Rightarrow> Panics p
           | Returns loc \<Rightarrow> Returns (Some loc, None)))"

section \<open>The search\<close>

text \<open>
  \<open>findIndexOffset\<close>. The loop need not end for a negative \<open>start\<close> (with \<open>start = -1\<close>
  and \<open>end = 0\<close> the midpoint is \<open>end\<close> again), so not returning is the value \<open>None\<close>.
\<close>

partial_function (option) Locator_findIndexOffset ::
    "Locator \<Rightarrow> uint32 \<Rightarrow> int \<Rightarrow> int \<Rightarrow> int outcome option" where
  "Locator_findIndexOffset loc ip start endi =
     (if start < endi then
        (case index_at (indexData1 loc) (go_div (start + endi) 2) of
           Panics p \<Rightarrow> Some (Panics p)
         | Returns v \<Rightarrow>
             if ip > v then Locator_findIndexOffset loc ip (go_div (start + endi) 2 + 1) endi
             else Locator_findIndexOffset loc ip start (go_div (start + endi) 2))
      else
        (case index_at (indexData1 loc) endi of
           Panics p \<Rightarrow> Some (Panics p)
         | Returns v \<Rightarrow> if v \<ge> ip then Some (Returns endi) else Some (Returns start)))"

declare Locator_findIndexOffset.simps [code]

text \<open>
  The last two statements of \<open>FindByUint\<close>: the record of index entry \<open>idx\<close>, cut out
  of the text and parsed.
\<close>

definition recordAt :: "Locator \<Rightarrow> int \<Rightarrow> LocationInfo outcome" where
  "recordAt loc idx =
     (case index_at (indexData2 loc) idx of
        Panics p \<Rightarrow> Panics p
      | Returns off \<Rightarrow>
     (case index_at (indexData3 loc) idx of
        Panics p \<Rightarrow> Panics p
      | Returns n \<Rightarrow>
     (case slice_range (textData loc) off (off + n) of
        Panics p \<Rightarrow> Panics p
      | Returns str \<Rightarrow> newLocationInfo (elems str))))"

text \<open>\<open>FindByUint\<close> on a \<open>*Locator\<close>; \<open>None\<close> is the nil pointer.\<close>

definition Locator_FindByUint :: "Locator option \<Rightarrow> uint32 \<Rightarrow> LocationInfo outcome option" where
  "Locator_FindByUint locp ip =
     (case locp of
        None \<Rightarrow> Some (Panics NilDereference)
      | Some loc \<Rightarrow>
     (case (if drop_bit 24 ip \<noteq> 0xff
            then index_at (index loc) (uint (drop_bit 24 ip + 1))
            else Returns (int (length (indexData1 loc)) - 1)) of
        Panics p \<Rightarrow> Some (Panics p)
      | Returns endi \<Rightarrow>
     (case index_at (index loc) (uint (drop_bit 24 ip)) of
        Panics p \<Rightarrow> Some (Panics p)
      | Returns start \<Rightarrow>
     (case Locator_findIndexOffset loc ip start endi of
        None \<Rightarrow> None
      | Some (Panics p) \<Rightarrow> Some (Panics p)
      | Some (Returns idx) \<Rightarrow> Some (recordAt loc idx)))))"

section \<open>Lookup by text\<close>

text \<open>
  \<open>net.IP.To4\<close>: a 4-byte address as it is, the last four bytes of a 16-byte address
  that is an IPv4-mapped one, and nil (the empty slice) otherwise.
\<close>

definition isZeros :: "string \<Rightarrow> bool" where
  "isZeros p = list_all (\<lambda>c. c = CHR 0x00) p"

definition To4 :: "string \<Rightarrow> string" where
  "To4 ip =
     (if length ip = 4 then ip
      else if length ip = 16 \<and> isZeros (take 10 ip) \<and> ip ! 10 = CHR 0xFF \<and> ip ! 11 = CHR 0xFF
      then take 4 (drop 12 ip)
      else [])"

text \<open>
  \<open>net.ParseIP\<close> is a parameter of the model: a function from the text to nil
  (\<open>None\<close>) or the bytes of the address.
\<close>

type_synonym ip_parser = "string \<Rightarrow> string option"

definition Locator_Find ::
    "ip_parser \<Rightarrow> Locator option \<Rightarrow> string \<Rightarrow>
       (LocationInfo option \<times> go_error option) outcome option" where
  "Locator_Find ParseIP locp ipstr =
     (case ParseIP ipstr of
        None \<Rightarrow> Some (Returns (None, Some ErrInvalidIp))
      | Some ip \<Rightarrow>
     (case BigEndian_Uint32 (To4 ip) of
        Panics p \<Rightarrow> Some (Panics p)
      | Returns w \<Rightarrow>
     (case Locator_FindByUint locp w of
        None \<Rightarrow> None
      | Some (Panics p) \<Rightarrow> Some (Panics p)
      | Some (Returns info) \<Rightarrow> Some (Returns (Some info, None)))))"

section \<open>The default instance and its reload\<close>

text \<open>
  The package variables \<open>std\<close>, \<open>olddata\<close> and \<open>newdata\<close>. A call that panics has
  assigned nothing: the variables are as before the call. The mutex serialises \<open>Init\<close>
  and \<open>Reload\<close> and has no part in a sequential run.
\<close>

record registry =
  std :: "Locator option"
  olddata :: "Locator option"
  newdata :: "Locator option"

definition emptyRegistry :: registry where
  "emptyRegistry = \<lparr>std = None, olddata = None, newdata = None\<rparr>"

definition Init :: "filesystem \<Rightarrow> registry \<Rightarrow> string \<Rightarrow> (registry \<times> go_error option) outcome" where
  "Init fs reg dataFile =
     (if std reg \<noteq> None then Returns (reg, None)
      else
        (case NewLocator fs dataFile of
           Panics p \<Rightarrow> Panics p
         | Returns (loc, err) \<Rightarrow>
             (let reg1 = reg\<lparr>std := loc\<rparr> in
              if err = None
              then Returns (reg1\<lparr>olddata := std reg1, newdata := std reg1\<rparr>, err)
              else Returns (reg1, err))))"

definition Reload :: "filesystem \<Rightarrow> registry \<Rightarrow> string \<Rightarrow> (registry \<times> go_error option) outcome" where
  "Reload fs reg dataFile =
     (case NewLocator fs dataFile of
        Panics p \<Rightarrow> Panics p
      | Returns (loc, err) \<Rightarrow>
          (let reg1 = reg\<lparr>olddata := loc\<rparr>;
               reg2 = reg1\<lparr>olddata := newdata reg1, newdata := olddata reg1\<rparr>;
               reg3 = reg2\<lparr>std := newdata reg2\<rparr>
           in Returns (reg3, err)))"

definition InitWithData :: "registry \<Rightarrow> bslice \<Rightarrow> registry outcome" where
  "InitWithData reg data =
     (if std reg \<noteq> None then Returns reg
      else
        (case NewLocatorWithData data of
           Panics p \<Rightarrow> Panics p
         | Returns loc \<Rightarrow> Returns (reg\<lparr>std := Some loc\<rparr>)))"

definition Find ::
    "ip_parser \<Rightarrow> registry \<Rightarrow> string \<Rightarrow>
       (LocationInfo option \<times> go_error option) outcome option" where
  "Find ParseIP reg ipstr = Locator_Find ParseIP (std reg) ipstr"

definition FindByUint :: "registry \<Rightarrow> uint32 \<Rightarrow> LocationInfo outcome option" where
  "FindByUint reg ip = Locator_FindByUint (std reg) ip"

text \<open>
  The invariant of the three variables: the active Locator is the one in \<open>newdata\<close>,
  unless \<open>newdata\<close> is still nil.
\<close>

definition slots_inv :: "registry \<Rightarrow> bool" where
  "slots_inv reg = (std reg = newdata reg \<or> newdata reg = None)"

section \<open>Example data\<close>

text \<open>Records of the three schemas, and one whose numeric fields do not parse.\<close>

definition rec_free :: string where
  "rec_free = ''US'' @ tab # ''CA'' @ tab # ''Los Angeles'' @ [tab]"

definition rec_pay :: string where
  "rec_pay = ''CN'' @ tab # tab # ''Beijing'' @ tab # ''x'' @ tab # ''ChinaNet''"

definition rec_specific :: string where
  "rec_specific =
     ''CN'' @ tab # tab # tab # ''ChinaNet'' @ tab # ''1'' @ tab # ''2'' @ tab # ''3'' @
     tab # ''4'' @ tab # ''5'' @ [tab]"

definition rec_malformed :: string where
  "rec_malformed =
     ''CN'' @ tab # tab # tab # ''ChinaNet'' @ tab # ''9223372036854775808'' @
     tab # ''-9223372036854775809'' @ tab # ''+3'' @ tab # ''4x'' @
     tab # ''18446744073709551616'' @ [tab]"

text \<open>A Locator with three range entries and nothing else.\<close>

definition loc3 :: Locator where
  "loc3 = zeroLocator\<lparr>indexData1 := [10, 20, 30]\<rparr>"

text \<open>
  A database without entries: a four-byte header, 1024 zero bytes of prefix index, and
  the text. Two of them, the Locators they decode to, and a file system that holds them.
\<close>

definition blank_db :: "string \<Rightarrow> string \<Rightarrow> bslice" where
  "blank_db header tail = \<lparr>elems = header @ replicate 1024 (CHR 0x00) @ tail, spare = []\<rparr>"

definition db0 :: bslice where
  "db0 = blank_db [CHR 0x00, CHR 0x00, CHR 0x08, CHR 0x04] []"

definition db1 :: bslice where
  "db1 = blank_db [CHR 0x00, CHR 0x00, CHR 0x08, CHR 0x04] ''x''"

definition loc0 :: Locator where
  "loc0 = \<lparr>textData = \<lparr>elems = [], spare = []\<rparr>, indexData1 = [], indexData2 = [],
            indexData3 = [], index = replicate 256 0\<rparr>"

definition loc1 :: Locator where
  "loc1 = \<lparr>textData = \<lparr>elems = ''x'', spare = []\<rparr>, indexData1 = [], indexData2 = [],
            indexData3 = [], index = replicate 256 0\<rparr>"

definition disk :: filesystem where
  "disk path =
     (if path = ''a.dat'' then Inr db0
      else if path = ''b.dat'' then Inr db1
      else if path = ''short.dat'' then Inr \<lparr>elems = ''abc'', spare = []\<rparr>
      else Inl ReadFileError)"

text \<open>An address parser that accepts the IPv6 loopback address and nothing else.\<close>

definition loopback_parser :: ip_parser where
  "loopback_parser s =
     (if s = ''::1'' then Some (replicate 15 (CHR 0x00) @ [CHR 0x01]) else None)"

section \<open>Properties of the record parser\<close>

subsection \<open>Splitting\<close>

lemma split_tab_no_tab: "tab \<notin> set s \<Longrightarrow> split_tab s = [s]"
proof -
  assume "tab \<notin> set s"
  then have d: "dropWhile (\<lambda>c. c \<noteq> tab) s = []" by (induction s) auto
  show ?thesis by (subst split_tab.simps) (simp only: d list.case)
qed

lemma split_tab_append:
  "tab \<notin> set f \<Longrightarrow> split_tab (f @ tab # rest) = f # split_tab rest"
proof -
  assume a: "tab \<notin> set f"
  then have d: "dropWhile (\<lambda>c. c \<noteq> tab) (f @ tab # rest) = tab # rest"
    by (induction f) auto
  from a have t: "takeWhile (\<lambda>c. c \<noteq> tab) (f @ tab # rest) = f"
    by (induction f) auto
  show ?thesis by (subst split_tab.simps) (simp only: d t list.case)
qed

lemma split_tab_Nil: "split_tab [] = [[]]"
  by (simp add: split_tab_no_tab)

lemma split_tab_Cons_tab: "split_tab (tab # cs) = [] # split_tab cs"
  using split_tab_append [of "[]" cs] by simp

lemma split_tab_ne: "split_tab s \<noteq> []"
  by (subst split_tab.simps) (simp split: list.split)

lemma length_split_tab: "length (split_tab s) = Suc (count_list s tab)"
proof (induction s rule: split_tab.induct)
  case (1 s)
  show ?case
  proof (cases "dropWhile (\<lambda>c. c \<noteq> tab) s")
    case Nil
    then have "tab \<notin> set s" by (metis (mono_tags, lifting) dropWhile_eq_Nil_conv)
    then show ?thesis by (simp add: split_tab_no_tab)
  next
    case (Cons x rest)
    then have x: "x = tab" by (metis (mono_tags, lifting) hd_dropWhile list.sel(1) list.distinct(1))
    have s: "s = takeWhile (\<lambda>c. c \<noteq> tab) s @ tab # rest"
      using Cons x by (metis takeWhile_dropWhile_id)
    have nt: "tab \<notin> set (takeWhile (\<lambda>c. c \<noteq> tab) s)"
      by (metis (mono_tags, lifting) set_takeWhileD)
    have "count_list s tab = Suc (count_list rest tab)"
      apply (subst s) using nt by (simp add: count_list_0_iff)
    moreover have "length (split_tab s) = Suc (length (split_tab rest))"
      by (subst split_tab.simps) (simp add: Cons)
    ultimately show ?thesis using "1.IH" [OF Cons] by simp
  qed
qed

lemma split_tab_Cons:
  "split_tab (c # cs) =
     (if c = tab then [] # split_tab cs
      else (case split_tab cs of f # fs \<Rightarrow> (c # f) # fs))"
proof (cases "c = tab")
  case True
  then show ?thesis by (simp add: split_tab_Cons_tab)
next
  case False
  show ?thesis
  proof (cases "dropWhile (\<lambda>c. c \<noteq> tab) cs")
    case Nil
    have "split_tab cs = [cs]"
      by (subst split_tab.simps) (simp only: Nil list.case)
    moreover have "split_tab (c # cs) = [c # cs]"
      by (subst split_tab.simps) (simp add: False Nil)
    ultimately show ?thesis using False by simp
  next
    case (Cons x rest)
    have "split_tab cs = takeWhile (\<lambda>c. c \<noteq> tab) cs # split_tab rest"
      by (subst split_tab.simps) (simp only: Cons list.case)
    moreover have "split_tab (c # cs) = (c # takeWhile (\<lambda>c. c \<noteq> tab) cs) # split_tab rest"
      by (subst split_tab.simps) (simp add: False Cons)
    ultimately show ?thesis using False by simp
  qed
qed

lemmas split_tab_eval = split_tab_Nil split_tab_Cons tab_def


subsection \<open>Number conversion\<close>

lemma ParseUint_loop_syntax:
  "snd (ParseUint_loop s n) = Some ErrSyntax \<Longrightarrow> fst (ParseUint_loop s n) = 0"
  by (induction s arbitrary: n) (auto split: if_splits)

lemma ParseUint_loop_range:
  "snd (ParseUint_loop s n) = Some ErrRange \<Longrightarrow> fst (ParseUint_loop s n) = maxUint64"
  by (induction s arbitrary: n) (auto split: if_splits)

lemma ParseUint_syntax: "snd (ParseUint s) = Some ErrSyntax \<Longrightarrow> fst (ParseUint s) = 0"
  by (simp add: ParseUint_def ParseUint_loop_syntax split: if_splits)

lemma ParseUint_range: "snd (ParseUint s) = Some ErrRange \<Longrightarrow> fst (ParseUint s) = 2 ^ 64 - 1"
  using ParseUint_loop_range [of s 0]
  by (simp add: ParseUint_def maxUint64_def split: if_splits)

lemma ParseInt_syntax: "snd (ParseInt s) = Some ErrSyntax \<Longrightarrow> fst (ParseInt s) = 0"
  by (auto simp: ParseInt_def Let_def split: if_splits prod.splits)

lemma ParseInt_range:
  "snd (ParseInt s) = Some ErrRange \<Longrightarrow>
     fst (ParseInt s) = 2 ^ 63 - 1 \<or> fst (ParseInt s) = - (2 ^ 63)"
  by (auto simp: ParseInt_def Let_def split: if_splits prod.splits)

lemma ParseInt_bounds: "- (2 ^ 63) \<le> fst (ParseInt s) \<and> fst (ParseInt s) \<le> 2 ^ 63 - 1"
  by (auto simp: ParseInt_def Let_def split: if_splits prod.splits)

text \<open>A string of digits is converted to the number it writes in base ten, when that fits.\<close>

lemma decimal_mono: "n \<le> foldl (\<lambda>a c. a * 10 + digit_val c) n s"
proof (induction s arbitrary: n)
  case Nil
  show ?case by simp
next
  case (Cons c cs)
  have "n \<le> n * 10 + digit_val c" by simp
  also have "\<dots> \<le> foldl (\<lambda>a c. a * 10 + digit_val c) (n * 10 + digit_val c) cs"
    by (rule Cons.IH)
  finally show ?case by simp
qed

lemma ParseUint_loop_decimal:
  assumes "\<forall>c \<in> set s. is_digit c"
    and "foldl (\<lambda>a c. a * 10 + digit_val c) n s \<le> maxUint64"
  shows "ParseUint_loop s n = (foldl (\<lambda>a c. a * 10 + digit_val c) n s, None)"
  using assms
proof (induction s arbitrary: n)
  case Nil
  show ?case by simp
next
  case (Cons c cs)
  have "n * 10 + digit_val c \<le> foldl (\<lambda>a c. a * 10 + digit_val c) (n * 10 + digit_val c) cs"
    by (rule decimal_mono)
  then have le: "n * 10 + digit_val c \<le> maxUint64" using Cons.prems(2) by simp
  then have "n * 10 \<le> maxUint64" by simp
  then have "n < maxUint64 div 10 + 1" by (simp add: maxUint64_def)
  then show ?case using Cons le by simp
qed

lemma ParseUint_decimal:
  assumes "s \<noteq> []" and "\<forall>c \<in> set s. is_digit c"
    and "foldl (\<lambda>a c. a * 10 + digit_val c) 0 s < 2 ^ 64"
  shows "ParseUint s = (foldl (\<lambda>a c. a * 10 + digit_val c) 0 s, None)"
  using assms ParseUint_loop_decimal [of s 0]
  by (simp add: ParseUint_def maxUint64_def)

lemma ParseInt_decimal:
  assumes "s \<noteq> []" and "\<forall>c \<in> set s. is_digit c"
    and "foldl (\<lambda>a c. a * 10 + digit_val c) 0 s < 2 ^ 63"
  shows "ParseInt s = (int (foldl (\<lambda>a c. a * 10 + digit_val c) 0 s), None)"
    and "ParseInt (CHR ''-'' # s) = (- int (foldl (\<lambda>a c. a * 10 + digit_val c) 0 s), None)"
proof -
  have u: "ParseUint s = (foldl (\<lambda>a c. a * 10 + digit_val c) 0 s, None)"
    using assms by (intro ParseUint_decimal) auto
  have "is_digit (hd s)" using assms(1,2) by (cases s) auto
  then have "hd s \<noteq> CHR ''+''" "hd s \<noteq> CHR ''-''" by (auto simp: is_digit_def)
  then show "ParseInt s = (int (foldl (\<lambda>a c. a * 10 + digit_val c) 0 s), None)"
    using assms(1,3) u by (simp add: ParseInt_def)
  show "ParseInt (CHR ''-'' # s) = (- int (foldl (\<lambda>a c. a * 10 + digit_val c) 0 s), None)"
    using assms(3) u by (simp add: ParseInt_def)
qed

lemmas strconv_eval = ParseInt_def ParseUint_def is_digit_def digit_val_def maxUint64_def


subsection \<open>The three schemas\<close>

lemma fillNull_eq:
  "fillNull info =
     info\<lparr>Country := (if Country info = [] then Null else Country info),
          Region := (if Region info = [] then Null else Region info),
          City := (if City info = [] then Null else City info),
          Isp := (if Isp info = [] then Null else Isp info)\<rparr>"
  by (simp add: fillNull_def Let_def)

lemma newLocationInfo_ten:
  assumes "split_tab str = [h0, h1, h2, h3, h4, h5, h6, h7, h8, h9]"
  shows "newLocationInfo str = Returns
        \<lparr>Country = (if h0 = [] then Null else h0),
         Region = (if h1 = [] then Null else h1),
         City = (if h2 = [] then Null else h2),
         Isp = (if h3 = [] then Null else h3),
         Country_id = fst (ParseInt h4), Province_id = fst (ParseInt h5),
         City_id = fst (ParseInt h6), Isp_id = fst (ParseInt h7),
         Location_id = fst (ParseUint h8)\<rparr>"
  using assms by (simp add: newLocationInfo_def fillNull_eq)

lemma newLocationInfo_Returns_iff:
  "(\<exists>info. newLocationInfo str = Returns info) \<longleftrightarrow> length (split_tab str) \<in> {4, 5, 10}"
  by (auto simp: newLocationInfo_def Let_def)

lemma split_rec_free: "split_tab rec_free = [''US'', ''CA'', ''Los Angeles'', []]"
  by (simp add: rec_free_def split_tab_eval)

lemma split_rec_pay: "split_tab rec_pay = [''CN'', [], ''Beijing'', ''x'', ''ChinaNet'']"
  by (simp add: rec_pay_def split_tab_eval)

lemma split_rec_specific:
  "split_tab rec_specific =
     [''CN'', [], [], ''ChinaNet'', ''1'', ''2'', ''3'', ''4'', ''5'', []]"
  by (simp add: rec_specific_def split_tab_eval)

lemma split_rec_malformed:
  "split_tab rec_malformed =
     [''CN'', [], [], ''ChinaNet'', ''9223372036854775808'', ''-9223372036854775809'',
      ''+3'', ''4x'', ''18446744073709551616'', []]"
  by (simp add: rec_malformed_def split_tab_eval)


text \<open>
  Claim C7. The record is split at tabs and the number of fields selects the schema.
  Four fields: fields 0 to 2 are country, region and city, there is no ISP and no
  identifier. Five fields: fields 0 to 2 as before, field 3 is not used, field 4 is the
  ISP. Ten fields: fields 0 to 3 are country, region, city and ISP, fields 4 to 7 are
  converted by \<open>ParseInt\<close> to the four signed identifiers and field 8 by \<open>ParseUint\<close>
  to the location identifier; field 9 is not used. In every schema an empty text field
  is returned as \<open>Null\<close>.
\<close>

theorem newLocationInfo_field_count:
  "(split_tab str = [f0, f1, f2, f3] \<longrightarrow>
      newLocationInfo str = Returns
        \<lparr>Country = (if f0 = [] then Null else f0),
         Region = (if f1 = [] then Null else f1),
         City = (if f2 = [] then Null else f2),
         Isp = Null,
         Country_id = 0, Province_id = 0, City_id = 0, Isp_id = 0, Location_id = 0\<rparr>) \<and>
   (split_tab str = [g0, g1, g2, g3, g4] \<longrightarrow>
      newLocationInfo str = Returns
        \<lparr>Country = (if g0 = [] then Null else g0),
         Region = (if g1 = [] then Null else g1),
         City = (if g2 = [] then Null else g2),
         Isp = (if g4 = [] then Null else g4),
         Country_id = 0, Province_id = 0, City_id = 0, Isp_id = 0, Location_id = 0\<rparr>) \<and>
   (split_tab str = [h0, h1, h2, h3, h4, h5, h6, h7, h8, h9] \<longrightarrow>
      newLocationInfo str = Returns
        \<lparr>Country = (if h0 = [] then Null else h0),
         Region = (if h1 = [] then Null else h1),
         City = (if h2 = [] then Null else h2),
         Isp = (if h3 = [] then Null else h3),
         Country_id = fst (ParseInt h4), Province_id = fst (ParseInt h5),
         City_id = fst (ParseInt h6), Isp_id = fst (ParseInt h7),
         Location_id = fst (ParseUint h8)\<rparr>)"
  by (simp add: newLocationInfo_def fillNull_eq zeroLocationInfo_def)

theorem newLocationInfo_field_count_witness:
  "newLocationInfo rec_free = Returns
     \<lparr>Country = ''US'', Region = ''CA'', City = ''Los Angeles'', Isp = ''N/A'',
      Country_id = 0, Province_id = 0, City_id = 0, Isp_id = 0, Location_id = 0\<rparr> \<and>
   newLocationInfo rec_pay = Returns
     \<lparr>Country = ''CN'', Region = ''N/A'', City = ''Beijing'', Isp = ''ChinaNet'',
      Country_id = 0, Province_id = 0, City_id = 0, Isp_id = 0, Location_id = 0\<rparr> \<and>
   newLocationInfo rec_specific = Returns
     \<lparr>Country = ''CN'', Region = ''N/A'', City = ''N/A'', Isp = ''ChinaNet'',
      Country_id = 1, Province_id = 2, City_id = 3, Isp_id = 4, Location_id = 5\<rparr>"
  using newLocationInfo_field_count [of rec_free "''US''" "''CA''" "''Los Angeles''" "[]"]
    newLocationInfo_field_count [of rec_pay _ _ _ _ "''CN''" "[]" "''Beijing''" "''x''" "''ChinaNet''"]
    newLocationInfo_field_count [of rec_specific _ _ _ _ _ _ _ _ _ "''CN''" "[]" "[]" "''ChinaNet''" "''1''" "''2''" "''3''" "''4''" "''5''" "[]"]
  by (simp add: split_rec_free split_rec_pay split_rec_specific Null_def strconv_eval)


text \<open>
  Claim C8. When a record parses, each of country, region, city and ISP that is empty
  in the record comes back as \<open>Null\<close>, whatever the schema; the ISP of a four-field
  record, which has none, comes back as \<open>Null\<close> too. No text field of the result is
  empty.
\<close>

theorem newLocationInfo_null_sentinel:
  assumes "newLocationInfo str = Returns info"
  shows "(split_tab str ! 0 = [] \<longrightarrow> Country info = Null) \<and>
         (split_tab str ! 1 = [] \<longrightarrow> Region info = Null) \<and>
         (split_tab str ! 2 = [] \<longrightarrow> City info = Null) \<and>
         (length (split_tab str) = 4 \<longrightarrow> Isp info = Null) \<and>
         (length (split_tab str) = 5 \<and> split_tab str ! 4 = [] \<longrightarrow> Isp info = Null) \<and>
         (length (split_tab str) = 10 \<and> split_tab str ! 3 = [] \<longrightarrow> Isp info = Null) \<and>
         Country info \<noteq> [] \<and> Region info \<noteq> [] \<and> City info \<noteq> [] \<and> Isp info \<noteq> []"
  using assms
  by (auto simp: newLocationInfo_def Let_def fillNull_eq zeroLocationInfo_def Null_def
           split: if_splits)

theorem newLocationInfo_null_sentinel_witness:
  "newLocationInfo rec_specific = Returns
     \<lparr>Country = ''CN'', Region = ''N/A'', City = ''N/A'', Isp = ''ChinaNet'',
      Country_id = 1, Province_id = 2, City_id = 3, Isp_id = 4, Location_id = 5\<rparr> \<and>
   split_tab rec_specific ! 1 = [] \<and> split_tab rec_specific ! 2 = [] \<and>
   Region \<lparr>Country = ''CN'', Region = ''N/A'', City = ''N/A'', Isp = ''ChinaNet'',
      Country_id = 1, Province_id = 2, City_id = 3, Isp_id = 4, Location_id = 5\<rparr> = Null"
proof -
  have e: "newLocationInfo rec_specific = Returns
     \<lparr>Country = ''CN'', Region = ''N/A'', City = ''N/A'', Isp = ''ChinaNet'',
      Country_id = 1, Province_id = 2, City_id = 3, Isp_id = 4, Location_id = 5\<rparr>"
    by (simp add: newLocationInfo_ten [OF split_rec_specific] Null_def strconv_eval)
  show ?thesis
    using newLocationInfo_null_sentinel [OF e] e by (simp add: split_rec_specific)
qed


text \<open>
  Claim C3, as the code has it. A record whose number of fields is not 4, 5 or 10 makes
  \<open>newLocationInfo\<close> panic with the message \<open>unexpected ip info:\<close> followed by the
  record. Nothing is returned: the function has no error result, and neither has
  \<open>FindByUint\<close>, which calls it last. The Locator is only read by a lookup, so the
  panic leaves it as it was.
\<close>

theorem newLocationInfo_unexpected_panics:
  assumes "length (split_tab str) \<noteq> 4" and "length (split_tab str) \<noteq> 5"
    and "length (split_tab str) \<noteq> 10"
  shows "newLocationInfo str = Panics (PanicMsg (''unexpected ip info:'' @ str))"
  using assms by (simp add: newLocationInfo_def)

theorem newLocationInfo_unexpected_panics_witness:
  "length (split_tab (''a'' @ tab # ''b'')) = 2 \<and>
   newLocationInfo (''a'' @ tab # ''b'') =
     Panics (PanicMsg (''unexpected ip info:'' @ ''a'' @ tab # ''b''))"
  using newLocationInfo_unexpected_panics [of "''a'' @ tab # ''b''"]
  by (simp add: split_tab_eval)


text \<open>The empty record has one field; parsing it panics and returns no error value.\<close>

theorem newLocationInfo_ParseError_counterexample:
  "newLocationInfo [] = Panics (PanicMsg ''unexpected ip info:'')"
  by (simp add: newLocationInfo_def split_tab_eval)


text \<open>
  Claim C9, as the code has it. A ten-field record always parses. The error of each
  number conversion is dropped and the value that came with it is stored: \<open>0\<close> after a
  syntax error, and after a range error the bound of the type (\<open>2^63 - 1\<close> or \<open>-2^63\<close>
  for the four signed identifiers, \<open>2^64 - 1\<close> for the location identifier). Each
  field of the result depends on its own field of the record only.
\<close>

theorem newLocationInfo_numeric_fields:
  assumes "split_tab str = [h0, h1, h2, h3, h4, h5, h6, h7, h8, h9]"
  shows "\<exists>info. newLocationInfo str = Returns info \<and>
     Country info = (if h0 = [] then Null else h0) \<and>
     Region info = (if h1 = [] then Null else h1) \<and>
     City info = (if h2 = [] then Null else h2) \<and>
     Isp info = (if h3 = [] then Null else h3) \<and>
     Country_id info = fst (ParseInt h4) \<and>
     Province_id info = fst (ParseInt h5) \<and>
     City_id info = fst (ParseInt h6) \<and>
     Isp_id info = fst (ParseInt h7) \<and>
     Location_id info = fst (ParseUint h8) \<and>
     (snd (ParseInt h4) = Some ErrSyntax \<longrightarrow> Country_id info = 0) \<and>
     (snd (ParseInt h5) = Some ErrSyntax \<longrightarrow> Province_id info = 0) \<and>
     (snd (ParseInt h6) = Some ErrSyntax \<longrightarrow> City_id info = 0) \<and>
     (snd (ParseInt h7) = Some ErrSyntax \<longrightarrow> Isp_id info = 0) \<and>
     (snd (ParseUint h8) = Some ErrSyntax \<longrightarrow> Location_id info = 0) \<and>
     (snd (ParseInt h4) = Some ErrRange \<longrightarrow>
        Country_id info = 2 ^ 63 - 1 \<or> Country_id info = - (2 ^ 63)) \<and>
     (snd (ParseInt h5) = Some ErrRange \<longrightarrow>
        Province_id info = 2 ^ 63 - 1 \<or> Province_id info = - (2 ^ 63)) \<and>
     (snd (ParseInt h6) = Some ErrRange \<longrightarrow>
        City_id info = 2 ^ 63 - 1 \<or> City_id info = - (2 ^ 63)) \<and>
     (snd (ParseInt h7) = Some ErrRange \<longrightarrow>
        Isp_id info = 2 ^ 63 - 1 \<or> Isp_id info = - (2 ^ 63)) \<and>
     (snd (ParseUint h8) = Some ErrRange \<longrightarrow> Location_id info = 2 ^ 64 - 1)"
proof -
  have "newLocationInfo str = Returns
        \<lparr>Country = (if h0 = [] then Null else h0),
         Region = (if h1 = [] then Null else h1),
         City = (if h2 = [] then Null else h2),
         Isp = (if h3 = [] then Null else h3),
         Country_id = fst (ParseInt h4), Province_id = fst (ParseInt h5),
         City_id = fst (ParseInt h6), Isp_id = fst (ParseInt h7),
         Location_id = fst (ParseUint h8)\<rparr>"
    using assms by (rule newLocationInfo_ten)
  then show ?thesis
    using ParseInt_syntax [of h4] ParseInt_syntax [of h5] ParseInt_syntax [of h6]
      ParseInt_syntax [of h7] ParseInt_range [of h4] ParseInt_range [of h5]
      ParseInt_range [of h6] ParseInt_range [of h7]
      ParseUint_syntax [of h8] ParseUint_range [of h8]
    by simp
qed

theorem newLocationInfo_numeric_fields_witness:
  "\<exists>info. newLocationInfo rec_malformed = Returns info \<and>
     snd (ParseInt ''4x'') = Some ErrSyntax \<and> Isp_id info = 0 \<and>
     snd (ParseInt ''9223372036854775808'') = Some ErrRange \<and> Country_id info = 2 ^ 63 - 1 \<and>
     snd (ParseInt ''-9223372036854775809'') = Some ErrRange \<and> Province_id info = - (2 ^ 63) \<and>
     snd (ParseUint ''18446744073709551616'') = Some ErrRange \<and> Location_id info = 2 ^ 64 - 1 \<and>
     City_id info = 3 \<and> Isp info = ''ChinaNet''"
  using newLocationInfo_numeric_fields [OF split_rec_malformed]
  by (simp add: strconv_eval Null_def) blast


text \<open>
  Field 4 of this record is \<open>2^63\<close>: the conversion fails with a range error and the
  country identifier is \<open>2^63 - 1\<close>, not zero.
\<close>

theorem newLocationInfo_numeric_fields_counterexample:
  "snd (ParseInt ''9223372036854775808'') = Some ErrRange \<and>
   newLocationInfo rec_malformed = Returns
     \<lparr>Country = ''CN'', Region = ''N/A'', City = ''N/A'', Isp = ''ChinaNet'',
      Country_id = 9223372036854775807, Province_id = - 9223372036854775808, City_id = 3, Isp_id = 0,
      Location_id = 18446744073709551615\<rparr>"
  by (simp add: newLocationInfo_ten [OF split_rec_malformed] Null_def strconv_eval)

section \<open>Properties of the search\<close>

lemma go_div_nonneg: "0 \<le> a \<Longrightarrow> 0 < b \<Longrightarrow> go_div a b = a div b"
  by (cases "a = 0") (simp_all add: go_div_def)

lemma index_at_in_range: "0 \<le> i \<Longrightarrow> i < int (length a) \<Longrightarrow> index_at a i = Returns (a ! nat i)"
  by (simp add: index_at_def)

lemma findIndexOffset_converged:
  assumes "\<not> start < endi" and "0 \<le> endi" and "endi < int (length (indexData1 loc))"
  shows "Locator_findIndexOffset loc ip start endi =
           Some (Returns (if ip \<le> indexData1 loc ! nat endi then endi else start))"
  using assms
  by (subst Locator_findIndexOffset.simps) (simp add: index_at_in_range)

lemma findIndexOffset_search:
  assumes "sorted (indexData1 loc)" and "0 \<le> start" and "start \<le> endi"
    and "endi < int (length (indexData1 loc))"
  shows "\<exists>i. Locator_findIndexOffset loc ip start endi = Some (Returns i) \<and>
             start \<le> i \<and> i \<le> endi \<and>
             (\<forall>j. start \<le> j \<and> j < i \<longrightarrow> indexData1 loc ! nat j < ip) \<and>
             (i < endi \<longrightarrow> ip \<le> indexData1 loc ! nat i)"
  using assms(2-4)
proof (induction "nat (endi - start)" arbitrary: start endi rule: less_induct)
  case less
  let ?rs = "indexData1 loc"
  show ?case
  proof (cases "start < endi")
    case False
    then have "start = endi" using less.prems by simp
    then show ?thesis
      using findIndexOffset_converged [of start endi loc ip] less.prems by auto
  next
    case True
    define mid where "mid = go_div (start + endi) 2"
    have mid: "mid = (start + endi) div 2"
      using less.prems by (simp add: mid_def go_div_nonneg)
    have mid_bounds: "start \<le> mid" "mid < endi" using True mid by auto
    have mid_range: "0 \<le> mid" "mid < int (length ?rs)" using mid_bounds less.prems by auto
    have unfold: "Locator_findIndexOffset loc ip start endi =
        (if ip > ?rs ! nat mid then Locator_findIndexOffset loc ip (mid + 1) endi
         else Locator_findIndexOffset loc ip start mid)"
      apply (subst Locator_findIndexOffset.simps)
      using True mid_range by (simp add: mid_def [symmetric] index_at_in_range)
    show ?thesis
    proof (cases "ip > ?rs ! nat mid")
      case gt: True
      have "nat (endi - (mid + 1)) < nat (endi - start)" using mid_bounds by simp
      from less.hyps [OF this] mid_bounds mid_range less.prems
      obtain i where i: "Locator_findIndexOffset loc ip (mid + 1) endi = Some (Returns i)"
        "mid + 1 \<le> i" "i \<le> endi"
        "\<forall>j. mid + 1 \<le> j \<and> j < i \<longrightarrow> ?rs ! nat j < ip"
        "i < endi \<longrightarrow> ip \<le> ?rs ! nat i"
        by force
      have "?rs ! nat j < ip" if "start \<le> j" "j < i" for j
      proof (cases "mid + 1 \<le> j")
        case True
        then show ?thesis using i(4) that by simp
      next
        case False
        then have "nat j \<le> nat mid" using that less.prems by simp
        then have "?rs ! nat j \<le> ?rs ! nat mid"
          using assms(1) mid_range by (simp add: sorted_nth_mono)
        then show ?thesis using gt by simp
      qed
      then show ?thesis using i gt unfold mid_bounds by auto
    next
      case le: False
      have "nat (mid - start) < nat (endi - start)" using mid_bounds by simp
      from less.hyps [OF this] mid_bounds mid_range less.prems
      obtain i where i: "Locator_findIndexOffset loc ip start mid = Some (Returns i)"
        "start \<le> i" "i \<le> mid"
        "\<forall>j. start \<le> j \<and> j < i \<longrightarrow> ?rs ! nat j < ip"
        "i < mid \<longrightarrow> ip \<le> ?rs ! nat i"
        by force
      have "ip \<le> ?rs ! nat i" using i(3,5) le by (cases "i = mid") auto
      then show ?thesis using i le unfold mid_bounds by auto
    qed
  qed
qed

lemma findIndexOffset_returns:
  assumes "0 \<le> start" and "0 \<le> endi" and "endi < int (length (indexData1 loc))"
  shows "\<exists>i. Locator_findIndexOffset loc ip start endi = Some (Returns i) \<and>
             min start endi \<le> i \<and> i \<le> max start endi"
  using assms
proof (induction "nat (endi - start)" arbitrary: start endi rule: less_induct)
  case less
  let ?rs = "indexData1 loc"
  show ?case
  proof (cases "start < endi")
    case False
    then show ?thesis
      using findIndexOffset_converged [of start endi loc ip] less.prems by auto
  next
    case True
    define mid where "mid = go_div (start + endi) 2"
    have mid: "mid = (start + endi) div 2"
      using less.prems by (simp add: mid_def go_div_nonneg)
    have mid_bounds: "start \<le> mid" "mid < endi" using True mid by auto
    have mid_range: "0 \<le> mid" "mid < int (length ?rs)" using mid_bounds less.prems by auto
    have unfold: "Locator_findIndexOffset loc ip start endi =
        (if ip > ?rs ! nat mid then Locator_findIndexOffset loc ip (mid + 1) endi
         else Locator_findIndexOffset loc ip start mid)"
      apply (subst Locator_findIndexOffset.simps)
      using True mid_range by (simp add: mid_def [symmetric] index_at_in_range)
    show ?thesis
    proof (cases "ip > ?rs ! nat mid")
      case gt: True
      have "nat (endi - (mid + 1)) < nat (endi - start)" using mid_bounds by simp
      from less.hyps [OF this] mid_bounds mid_range less.prems
      obtain i where "Locator_findIndexOffset loc ip (mid + 1) endi = Some (Returns i)"
        "min (mid + 1) endi \<le> i" "i \<le> max (mid + 1) endi"
        by force
      then show ?thesis using gt unfold mid_bounds by auto
    next
      case le: False
      have "nat (mid - start) < nat (endi - start)" using mid_bounds by simp
      from less.hyps [OF this] mid_bounds mid_range less.prems
      obtain i where "Locator_findIndexOffset loc ip start mid = Some (Returns i)"
        "min start mid \<le> i" "i \<le> max start mid"
        by force
      then show ?thesis using le unfold mid_bounds by auto
    qed
  qed
qed


text \<open>
  Whether or not the loop ends: a panic of the search on a sub-range that ends inside the
  range array is a read at a negative index, never one at or past the end.
\<close>

lemma go_div_2_le: "s < e \<Longrightarrow> go_div (s + e) 2 \<le> e"
  by (auto simp: go_div_def sgn_if)

lemma findIndexOffset_panic_index:
  assumes "Locator_findIndexOffset loc ip start endi = Some r"
  shows "endi < int (length (indexData1 loc)) \<longrightarrow>
        (\<forall>p. r = Panics p \<longrightarrow> (\<exists>i. p = IndexOutOfRange i (length (indexData1 loc)) \<and> i < 0))"
proof (rule Locator_findIndexOffset.raw_induct
    [where P = "\<lambda>loc ip start endi r. endi < int (length (indexData1 loc)) \<longrightarrow>
        (\<forall>p. r = Panics p \<longrightarrow> (\<exists>i. p = IndexOutOfRange i (length (indexData1 loc)) \<and> i < 0))",
     OF _ assms])
  fix f :: "Locator \<Rightarrow> uint32 \<Rightarrow> int \<Rightarrow> int \<Rightarrow> int outcome option"
    and loc ip start endi r
  assume IH: "\<And>loc ip start endi r. f loc ip start endi = Some r \<Longrightarrow>
     endi < int (length (indexData1 loc)) \<longrightarrow>
        (\<forall>p. r = Panics p \<longrightarrow> (\<exists>i. p = IndexOutOfRange i (length (indexData1 loc)) \<and> i < 0))"
  assume eq: "(if start < endi then
        (case index_at (indexData1 loc) (go_div (start + endi) 2) of
           Panics p \<Rightarrow> Some (Panics p)
         | Returns v \<Rightarrow>
             if ip > v then f loc ip (go_div (start + endi) 2 + 1) endi
             else f loc ip start (go_div (start + endi) 2))
      else
        (case index_at (indexData1 loc) endi of
           Panics p \<Rightarrow> Some (Panics p)
         | Returns v \<Rightarrow> if v \<ge> ip then Some (Returns endi) else Some (Returns start))) = Some r"
  show "endi < int (length (indexData1 loc)) \<longrightarrow>
        (\<forall>p. r = Panics p \<longrightarrow> (\<exists>i. p = IndexOutOfRange i (length (indexData1 loc)) \<and> i < 0))"
  proof (intro impI allI)
    fix p
    assume e: "endi < int (length (indexData1 loc))" and r: "r = Panics p"
    show "\<exists>i. p = IndexOutOfRange i (length (indexData1 loc)) \<and> i < 0"
    proof (cases "start < endi")
      case True
      let ?mid = "go_div (start + endi) 2"
      have mid: "?mid \<le> endi" using True by (rule go_div_2_le)
      show ?thesis
      proof (cases "index_at (indexData1 loc) ?mid")
        case (Panics q)
        then have "p = q" using eq True r by simp
        then show ?thesis using Panics mid e
          by (auto simp: index_at_def split: if_splits)
      next
        case (Returns v)
        show ?thesis
        proof (cases "ip > v")
          case gt: True
          then have "f loc ip (?mid + 1) endi = Some r" using eq True Returns by simp
          then show ?thesis using IH e r by blast
        next
          case False
          then have "f loc ip start ?mid = Some r" using eq True Returns by simp
          moreover have "?mid < int (length (indexData1 loc))" using mid e by simp
          ultimately show ?thesis using IH r by blast
        qed
      qed
    next
      case False
      then show ?thesis using eq e r
        by (auto simp: index_at_def split: if_splits outcome.splits)
    qed
  qed
qed

subsection \<open>The top octet\<close>

lemma top_octet_div: "uint (drop_bit 24 (ip :: uint32)) = uint ip div 2 ^ 24"
  by (simp add: drop_bit_eq_div uint_div)

lemma top_octet_bound: "uint (drop_bit 24 (ip :: uint32)) < 256"
proof -
  have "uint ip < 2 ^ 32" using uint_lt2p [of ip] by simp
  then show ?thesis unfolding top_octet_div by simp
qed

lemma top_octet_succ:
  "uint (drop_bit 24 (ip :: uint32) + 1) = uint (drop_bit 24 ip) + 1"
proof -
  have "uint (drop_bit 24 ip + 1) = (uint (drop_bit 24 ip) + 1) mod 2 ^ 32"
    by (simp add: uint_word_ariths)
  then show ?thesis
    using top_octet_bound [of ip] uint_ge_0 [of "drop_bit 24 ip"] by simp
qed

lemma top_octet_ne: "drop_bit 24 (ip :: uint32) \<noteq> 0xff \<longleftrightarrow> uint (drop_bit 24 ip) \<noteq> 255"
  by (simp add: word_uint_eq_iff)

subsection \<open>The binary search\<close>

text \<open>
  Claim C4, as the code has it. On a sorted range array and a sub-range
  \<open>start \<le> end\<close> of valid indices, \<open>findIndexOffset\<close> returns the least index \<open>i\<close> of
  \<open>[start, end]\<close> whose entry is at least the address, and \<open>end\<close> when no entry is:
  every entry of the sub-range below \<open>i\<close> is smaller than the address, and the entry at
  \<open>i\<close> is at least the address unless \<open>i = end\<close>. (The entries are the upper ends of
  the ranges.) Once the loop has converged, the result is \<open>end\<close> when the entry at
  \<open>end\<close> is at least the address and \<open>start\<close> otherwise. That the entry at \<open>start\<close>
  is at most the address is not needed.
\<close>

theorem findIndexOffset_least_upper_bound:
  "(sorted (indexData1 loc) \<and> 0 \<le> start \<and> start \<le> endi \<and>
    endi < int (length (indexData1 loc)) \<longrightarrow>
      (\<exists>i. Locator_findIndexOffset loc ip start endi = Some (Returns i) \<and>
           start \<le> i \<and> i \<le> endi \<and>
           (\<forall>j. start \<le> j \<and> j < i \<longrightarrow> indexData1 loc ! nat j < ip) \<and>
           (i < endi \<longrightarrow> ip \<le> indexData1 loc ! nat i))) \<and>
   (\<not> start < endi \<and> 0 \<le> endi \<and> endi < int (length (indexData1 loc)) \<longrightarrow>
      Locator_findIndexOffset loc ip start endi =
        Some (Returns (if indexData1 loc ! nat endi \<ge> ip then endi else start)))"
  using findIndexOffset_search [of loc start endi ip]
    findIndexOffset_converged [of start endi loc ip]
  by blast

theorem findIndexOffset_least_upper_bound_witness:
  "sorted (indexData1 loc3) \<and>
   Locator_findIndexOffset loc3 15 0 2 = Some (Returns 1) \<and>
   Locator_findIndexOffset loc3 25 2 1 = Some (Returns 2)"
proof -
  have rs: "indexData1 loc3 = [10, 20, 30]" by (simp add: loc3_def)
  have srt: "sorted (indexData1 loc3)" by (simp add: rs)
  obtain i where i: "Locator_findIndexOffset loc3 15 0 2 = Some (Returns i)"
    "0 \<le> i" "i \<le> 2"
    "\<forall>j. 0 \<le> j \<and> j < i \<longrightarrow> indexData1 loc3 ! nat j < 15"
    "i < 2 \<longrightarrow> 15 \<le> indexData1 loc3 ! nat i"
    using findIndexOffset_least_upper_bound [of loc3 0 2 15] srt by (auto simp: rs)
  consider "i = 0" | "i = 1" | "i = 2" using i(2,3) by linarith
  then have "i = 1"
  proof cases
    case 1
    then show ?thesis using i(5) by (simp add: rs)
  next
    case 2
    then show ?thesis .
  next
    case 3
    then have "0 \<le> (1 :: int) \<and> (1 :: int) < i" by simp
    then have "indexData1 loc3 ! nat 1 < 15" using i(4) by blast
    then show ?thesis by (simp add: rs)
  qed
  moreover have "Locator_findIndexOffset loc3 25 2 1 = Some (Returns 2)"
    using findIndexOffset_least_upper_bound [of loc3 2 1 25] by (simp add: rs)
  ultimately show ?thesis using srt i(1) by simp
qed

text \<open>
  With entries 10, 20, 30 and address 15 the search over \<open>[0, 2]\<close> returns index 1, whose
  entry 20 is above the address; the greatest index with an entry at most 15 is 0.
\<close>

theorem findIndexOffset_greatest_counterexample:
  "sorted (indexData1 loc3) \<and> indexData1 loc3 ! 0 \<le> 15 \<and>
   Locator_findIndexOffset loc3 15 0 2 = Some (Returns 1) \<and>
   \<not> indexData1 loc3 ! 1 \<le> 15"
  by (simp add: Locator_findIndexOffset.simps loc3_def zeroLocator_def go_div_def index_at_def)

subsection \<open>The sub-range of a lookup\<close>

text \<open>
  Claim C5. For a Locator with its 256 prefix entries and any address with top octet
  \<open>b\<close>, both reads of the prefix index are in range, and \<open>FindByUint\<close> is the search
  between \<open>start = index[b]\<close> and \<open>end = index[b + 1]\<close> when \<open>b\<close> is not 255, and
  \<open>end = N - 1\<close>, the last index of the range array, when it is, followed by the fetch
  of the record. For \<open>b = 255\<close> the search never reads the range array at or past its
  end: if it panics, then on a negative index (as \<open>N - 1\<close> is for an empty array); and
  with a non-empty range array and \<open>start \<ge> 0\<close> (prefix entries are decoded from
  unsigned numbers) it returns, with an index between \<open>start\<close> and \<open>N - 1\<close>.
\<close>

theorem FindByUint_subrange:
  assumes "length (index loc) = 256"
  shows "\<exists>start endi.
      index_at (index loc) (uint (drop_bit 24 ip)) = Returns start \<and>
      start = index loc ! unat (drop_bit 24 ip) \<and>
      (if drop_bit 24 ip \<noteq> 0xff
       then index_at (index loc) (uint (drop_bit 24 ip) + 1) = Returns endi \<and>
            endi = index loc ! (unat (drop_bit 24 ip) + 1)
       else endi = int (length (indexData1 loc)) - 1) \<and>
      Locator_FindByUint (Some loc) ip =
        (case Locator_findIndexOffset loc ip start endi of
           None \<Rightarrow> None
         | Some (Panics p) \<Rightarrow> Some (Panics p)
         | Some (Returns idx) \<Rightarrow> Some (recordAt loc idx)) \<and>
      (drop_bit 24 ip = 0xff \<longrightarrow>
         (\<forall>p. Locator_findIndexOffset loc ip start endi = Some (Panics p) \<longrightarrow>
              (\<exists>i. p = IndexOutOfRange i (length (indexData1 loc)) \<and> i < 0)) \<and>
         (0 \<le> start \<and> indexData1 loc \<noteq> [] \<longrightarrow>
            (\<exists>i. Locator_findIndexOffset loc ip start endi = Some (Returns i) \<and>
                 min start endi \<le> i \<and> i \<le> max start endi)))"
proof -
  let ?b = "uint (drop_bit 24 ip)"
  have b: "0 \<le> ?b" "?b < 256" using top_octet_bound [of ip] by simp_all
  have nb: "nat ?b = unat (drop_bit 24 ip)" by simp
  have s: "index_at (index loc) ?b = Returns (index loc ! unat (drop_bit 24 ip))"
    using b assms by (simp add: index_at_def)
  show ?thesis
  proof (cases "drop_bit 24 ip = 0xff")
    case True
    let ?e = "int (length (indexData1 loc)) - 1"
    have "Locator_FindByUint (Some loc) ip =
        (case Locator_findIndexOffset loc ip (index loc ! unat (drop_bit 24 ip)) ?e of
           None \<Rightarrow> None
         | Some (Panics p) \<Rightarrow> Some (Panics p)
         | Some (Returns idx) \<Rightarrow> Some (recordAt loc idx))"
      using True s by (simp add: Locator_FindByUint_def)
    moreover have "\<exists>i. Locator_findIndexOffset loc ip (index loc ! unat (drop_bit 24 ip)) ?e
              = Some (Returns i) \<and>
            min (index loc ! unat (drop_bit 24 ip)) ?e \<le> i \<and>
            i \<le> max (index loc ! unat (drop_bit 24 ip)) ?e"
      if "0 \<le> index loc ! unat (drop_bit 24 ip)" "indexData1 loc \<noteq> []"
      using that by (intro findIndexOffset_returns) (auto simp: Suc_le_eq)
    moreover have "\<forall>p. Locator_findIndexOffset loc ip (index loc ! unat (drop_bit 24 ip)) ?e
              = Some (Panics p) \<longrightarrow>
            (\<exists>i. p = IndexOutOfRange i (length (indexData1 loc)) \<and> i < 0)"
      using findIndexOffset_panic_index
        [of loc ip "index loc ! unat (drop_bit 24 ip)" ?e] by simp
    ultimately show ?thesis using True s by auto
  next
    case False
    then have "?b \<noteq> 255" by (simp add: top_octet_ne)
    then have b1: "0 \<le> ?b + 1" "?b + 1 < 256" using b by simp_all
    have nb1: "nat (?b + 1) = unat (drop_bit 24 ip) + 1" by (simp add: nat_add_distrib)
    have e: "index_at (index loc) (?b + 1) = Returns (index loc ! (unat (drop_bit 24 ip) + 1))"
      using b1 assms by (simp add: index_at_def nat_add_distrib)
    have "Locator_FindByUint (Some loc) ip =
        (case Locator_findIndexOffset loc ip (index loc ! unat (drop_bit 24 ip))
                (index loc ! (unat (drop_bit 24 ip) + 1)) of
           None \<Rightarrow> None
         | Some (Panics p) \<Rightarrow> Some (Panics p)
         | Some (Returns idx) \<Rightarrow> Some (recordAt loc idx))"
      using False s e by (simp add: Locator_FindByUint_def top_octet_succ)
    then show ?thesis using False s e by auto
  qed
qed

theorem FindByUint_subrange_witness:
  "length (index (loc3\<lparr>index := replicate 256 0\<rparr>)) = 256 \<and>
   Locator_FindByUint (Some (loc3\<lparr>index := replicate 256 0\<rparr>)) 0xFF000001 =
     (case Locator_findIndexOffset (loc3\<lparr>index := replicate 256 0\<rparr>) 0xFF000001 0 2 of
        None \<Rightarrow> None
      | Some (Panics p) \<Rightarrow> Some (Panics p)
      | Some (Returns idx) \<Rightarrow> Some (recordAt (loc3\<lparr>index := replicate 256 0\<rparr>) idx)) \<and>
   (\<exists>i. Locator_findIndexOffset (loc3\<lparr>index := replicate 256 0\<rparr>) 0xFF000001 0 2 =
          Some (Returns i) \<and> 0 \<le> i \<and> i \<le> 2) \<and>
   Locator_FindByUint (Some (loc3\<lparr>index := replicate 256 0\<rparr>)) 0x01000001 =
     (case Locator_findIndexOffset (loc3\<lparr>index := replicate 256 0\<rparr>) 0x01000001 0 0 of
        None \<Rightarrow> None
      | Some (Panics p) \<Rightarrow> Some (Panics p)
      | Some (Returns idx) \<Rightarrow> Some (recordAt (loc3\<lparr>index := replicate 256 0\<rparr>) idx))"
proof -
  let ?loc = "loc3\<lparr>index := replicate 256 0\<rparr>"
  have len: "length (index ?loc) = 256" by simp
  have n: "int (length (indexData1 loc3)) - 1 = 2" "indexData1 loc3 \<noteq> []"
    by (simp_all add: loc3_def)
  have hi: "drop_bit 24 (0xFF000001 :: uint32) = 0xff" by simp
  have lo: "drop_bit 24 (0x01000001 :: uint32) = 1" by simp
  show ?thesis
    using FindByUint_subrange [OF len, of "0xFF000001"]
      FindByUint_subrange [OF len, of "0x01000001"]
    by (simp add: hi lo n index_at_def)
qed

section \<open>Properties of the decoder\<close>

lemma slice_range_ok:
  "0 \<le> lo \<Longrightarrow> lo \<le> hi \<Longrightarrow> hi \<le> slice_cap s \<Longrightarrow>
     slice_range s lo hi =
       Returns \<lparr>elems = take (nat (hi - lo)) (drop (nat lo) (elems s @ spare s)),
                spare = drop (nat hi) (elems s @ spare s)\<rparr>"
  by (simp add: slice_range_def)

lemma slice_range_panics:
  "hi > slice_cap s \<Longrightarrow> slice_range s lo hi = Panics SliceBounds"
  by (simp add: slice_range_def)

lemma slice_len_le_cap: "slice_len data \<le> slice_cap data"
  by (simp add: slice_len_def slice_cap_def)

lemma LittleEndian_Uint32_ok:
  "length b = 4 \<Longrightarrow> \<exists>w. LittleEndian_Uint32 b = Returns w"
  by (simp add: LittleEndian_Uint32_def)

lemma BigEndian_Uint32_ok:
  "length b = 4 \<Longrightarrow> \<exists>w. BigEndian_Uint32 b = Returns w"
  by (simp add: BigEndian_Uint32_def)

lemma store_at_in_range:
  "0 \<le> i \<Longrightarrow> i < int (length a) \<Longrightarrow> store_at a i v = Returns (a[nat i := v])"
  by (simp add: store_at_def)

lemma init_index_loop_panics:
  assumes "slice_cap data < 1028" and "0 \<le> i" and "i < 256"
  shows "\<exists>p. init_index_loop loc data i = Panics p"
  using assms
proof (induction loc data i rule: init_index_loop.induct)
  case (1 loc data i)
  show ?case
  proof (cases "4 + i * 4 + 4 \<le> slice_cap data")
    case False
    then show ?thesis
      using "1.prems" by (subst init_index_loop.simps) (simp add: slice_range_panics)
  next
    case True
    then have i: "i + 1 < 256" using "1.prems" by simp
    let ?b = "\<lparr>elems = take (nat (4 + i * 4 + 4 - (4 + i * 4))) (drop (nat (4 + i * 4)) (elems data @ spare data)),
                spare = drop (nat (4 + i * 4 + 4)) (elems data @ spare data)\<rparr>"
    have sr: "slice_range data (4 + i * 4) (4 + i * 4 + 4) = Returns ?b"
      using True "1.prems" by (intro slice_range_ok) auto
    have "length (elems ?b) = 4" using True "1.prems" by (simp add: slice_cap_def)
    then obtain w where w: "LittleEndian_Uint32 (elems ?b) = Returns w"
      using LittleEndian_Uint32_ok by blast
    show ?thesis
    proof (cases "store_at (index loc) i (uint w)")
      case (Panics p)
      then show ?thesis
        using "1.prems" sr w by (subst init_index_loop.simps) simp
    next
      case (Returns idx)
      have "\<exists>p. init_index_loop (loc\<lparr>index := idx\<rparr>) data (i + 1) = Panics p"
        using "1.IH" [OF _ sr w Returns] "1.prems" i by simp
      then show ?thesis
        using "1.prems" sr w Returns by (subst init_index_loop.simps) simp
    qed
  qed
qed

lemma init_index_loop_ok:
  assumes "1028 \<le> slice_cap data" and "0 \<le> i" and "i \<le> 256" and "length (index loc) = 256"
  shows "\<exists>idx. init_index_loop loc data i = Returns (loc\<lparr>index := idx\<rparr>) \<and>
           length idx = 256 \<and>
           (\<forall>k < 256. if int k < i then idx ! k = index loc ! k
                       else LittleEndian_Uint32 (prefix_bytes data k) = Returns (word_of_int (idx ! k))
                            \<and> 0 \<le> idx ! k \<and> idx ! k < 2 ^ 32)"
  using assms
proof (induction loc data i rule: init_index_loop.induct)
  case (1 loc data i)
  show ?case
  proof (cases "i < 256")
    case False
    then have "i = 256" using "1.prems" by simp
    then show ?thesis
      using "1.prems" by (subst init_index_loop.simps) (auto intro!: exI [of _ "index loc"])
  next
    case True
    let ?b = "\<lparr>elems = take (nat (4 + i * 4 + 4 - (4 + i * 4))) (drop (nat (4 + i * 4)) (elems data @ spare data)),
                spare = drop (nat (4 + i * 4 + 4)) (elems data @ spare data)\<rparr>"
    have sr: "slice_range data (4 + i * 4) (4 + i * 4 + 4) = Returns ?b"
      using True "1.prems" by (intro slice_range_ok) auto
    have eb: "elems ?b = prefix_bytes data (nat i)"
      using "1.prems" by (simp add: prefix_bytes_def nat_add_distrib nat_mult_distrib)
    have "length (elems ?b) = 4" using True "1.prems" by (simp add: slice_cap_def)
    then obtain w where w: "LittleEndian_Uint32 (elems ?b) = Returns w"
      using LittleEndian_Uint32_ok by blast
    have st: "store_at (index loc) i (uint w) = Returns ((index loc)[nat i := uint w])"
      using True "1.prems" by (intro store_at_in_range) auto
    let ?loc = "loc\<lparr>index := (index loc)[nat i := uint w]\<rparr>"
    from "1.IH" [OF True sr w st] "1.prems" True
    obtain idx where idx: "init_index_loop ?loc data (i + 1) = Returns (?loc\<lparr>index := idx\<rparr>)"
      "length idx = 256"
      "\<forall>k < 256. if int k < i + 1 then idx ! k = index ?loc ! k
                       else LittleEndian_Uint32 (prefix_bytes data k) = Returns (word_of_int (idx ! k))
                            \<and> 0 \<le> idx ! k \<and> idx ! k < 2 ^ 32"
      by auto
    have step: "init_index_loop loc data i = Returns (loc\<lparr>index := idx\<rparr>)"
      using True sr w st idx(1) by (subst init_index_loop.simps) simp
    have "if int k < i then idx ! k = index loc ! k
          else LittleEndian_Uint32 (prefix_bytes data k) = Returns (word_of_int (idx ! k))
               \<and> 0 \<le> idx ! k \<and> idx ! k < 2 ^ 32" if k: "k < 256" for k
    proof (cases "int k = i")
      case True
      then have "idx ! k = uint w"
        using idx(3) k "1.prems" by (auto split: if_splits)
      moreover have "uint w < 2 ^ 32" using uint_lt2p [of w] by simp
      moreover have "nat i = k" using True by simp
      moreover note w [unfolded eb]
      ultimately show ?thesis using True by simp
    next
      case False
      then show ?thesis using idx(3) k "1.prems" by (auto split: if_splits)
    qed
    then show ?thesis using step idx(2) by blast
  qed
qed

lemma init_entry_loop_ok:
  assumes "4 + 1024 + nidx * 8 \<le> slice_len data" and "0 \<le> i" and "i \<le> nidx"
    and "int (length (indexData1 loc)) = nidx" and "int (length (indexData2 loc)) = nidx"
    and "int (length (indexData3 loc)) = nidx"
  shows "\<exists>loc'. init_entry_loop loc data nidx i = Returns loc' \<and>
           textData loc' = textData loc \<and> index loc' = index loc \<and>
           length (indexData1 loc') = length (indexData1 loc) \<and>
           length (indexData2 loc') = length (indexData2 loc) \<and>
           length (indexData3 loc') = length (indexData3 loc)"
  using assms
proof (induction loc data nidx i rule: init_entry_loop.induct)
  case (1 loc data nidx i)
  show ?case
  proof (cases "i < nidx")
    case False
    then show ?thesis by (subst init_entry_loop.simps) simp
  next
    case True
    let ?off = "4 + 1024 + i * 8"
    have len: "?off + 8 \<le> slice_len data" using True "1.prems" by simp
    have cap: "slice_len data \<le> slice_cap data" by (simp add: slice_len_def slice_cap_def)
    let ?b = "\<lparr>elems = take (nat (?off + 4 - ?off)) (drop (nat ?off) (elems data @ spare data)),
                spare = drop (nat (?off + 4)) (elems data @ spare data)\<rparr>"
    have sr: "slice_range data ?off (?off + 4) = Returns ?b"
      using len cap "1.prems" by (intro slice_range_ok) auto
    have "length (elems ?b) = 4" using len "1.prems" by (simp add: slice_len_def)
    then obtain w where w: "BigEndian_Uint32 (elems ?b) = Returns w"
      using BigEndian_Uint32_ok by blast
    have b4: "index_at (elems data) (?off + 4) = Returns (elems data ! nat (?off + 4))"
      and b5: "index_at (elems data) (?off + 5) = Returns (elems data ! nat (?off + 5))"
      and b6: "index_at (elems data) (?off + 6) = Returns (elems data ! nat (?off + 6))"
      and b7: "index_at (elems data) (?off + 7) = Returns (elems data ! nat (?off + 7))"
      using len "1.prems" by (auto intro!: index_at_in_range simp: slice_len_def)
    let ?v2 = "uint ((of_char (elems data ! nat (?off + 4)) :: uint32) OR
                     push_bit 8 (of_char (elems data ! nat (?off + 5))) OR
                     push_bit 16 (of_char (elems data ! nat (?off + 6))))"
    let ?v3 = "of_char (elems data ! nat (?off + 7)) :: int"
    have s1: "store_at (indexData1 loc) i w = Returns ((indexData1 loc)[nat i := w])"
      and s2: "store_at (indexData2 loc) i ?v2 = Returns ((indexData2 loc)[nat i := ?v2])"
      and s3: "store_at (indexData3 loc) i ?v3 = Returns ((indexData3 loc)[nat i := ?v3])"
      using True "1.prems" by (auto intro!: store_at_in_range)
    let ?loc = "loc\<lparr>indexData1 := (indexData1 loc)[nat i := w],
                    indexData2 := (indexData2 loc)[nat i := ?v2],
                    indexData3 := (indexData3 loc)[nat i := ?v3]\<rparr>"
    have IH: "\<exists>loc'. init_entry_loop ?loc data nidx (i + 1) = Returns loc' \<and>
           textData loc' = textData ?loc \<and> index loc' = index ?loc \<and>
           length (indexData1 loc') = length (indexData1 ?loc) \<and>
           length (indexData2 loc') = length (indexData2 ?loc) \<and>
           length (indexData3 loc') = length (indexData3 ?loc)"
      using "1.IH" [OF True sr w s1 b4 b5 b6 s2 b7 s3] "1.prems" True by simp
    have "init_entry_loop loc data nidx i = init_entry_loop ?loc data nidx (i + 1)"
      using True sr w b4 b5 b6 b7 s1 s2 s3 by (subst init_entry_loop.simps) simp
    then show ?thesis using IH by auto
  qed
qed

lemma go_div_8_neg: "go_div t 8 < 0 \<longleftrightarrow> t \<le> - 8"
proof (cases "t < 0")
  case True
  then have "go_div t 8 = - ((- t) div 8)" by (simp add: go_div_def)
  then show ?thesis using True by auto
next
  case False
  then have "go_div t 8 = t div 8" by (cases "t = 0") (simp_all add: go_div_def)
  then show ?thesis using False by auto
qed

lemma go_div_8_pos: "0 < go_div t 8 \<Longrightarrow> go_div t 8 * 8 \<le> t"
proof (cases "t < 0")
  case True
  assume "0 < go_div t 8"
  moreover have "go_div t 8 = - ((- t) div 8)" using True by (simp add: go_div_def)
  ultimately show ?thesis using True by auto
next
  case False
  then have "go_div t 8 = t div 8" by (cases "t = 0") (simp_all add: go_div_def)
  then show ?thesis using False by auto
qed

lemma Locator_init_ok:
  assumes rt: "read_textoff data = Returns t" and cap: "1028 \<le> slice_cap data"
    and lo: "1024 \<le> t" and hi: "t \<le> slice_len data + 1024"
    and n: "\<not> go_div (t - 4 - 1024 - 1024) 8 < 0"
  shows "\<exists>loc'. Locator_init loc data = Returns loc' \<and>
           textData loc' = \<lparr>elems = drop (nat (t - 1024)) (elems data), spare = spare data\<rparr> \<and>
           length (index loc') = 256 \<and>
           (\<forall>k < 256. LittleEndian_Uint32 (prefix_bytes data k) = Returns (word_of_int (index loc' ! k))
                       \<and> 0 \<le> index loc' ! k \<and> index loc' ! k < 2 ^ 32) \<and>
           length (indexData1 loc') = nat (go_div (t - 4 - 1024 - 1024) 8) \<and>
           length (indexData2 loc') = nat (go_div (t - 4 - 1024 - 1024) 8) \<and>
           length (indexData3 loc') = nat (go_div (t - 4 - 1024 - 1024) 8)"
proof -
  let ?text = "\<lparr>elems = drop (nat (t - 1024)) (elems data), spare = spare data\<rparr>"
  let ?n = "go_div (t - 4 - 1024 - 1024) 8"
  let ?loc0 = "loc\<lparr>textData := ?text, index := replicate 256 0\<rparr>"
  have sf: "slice_from data (t - 1024) = Returns ?text"
    using lo hi by (simp add: slice_from_def)
  obtain idx where idx: "init_index_loop ?loc0 data 0 = Returns (?loc0\<lparr>index := idx\<rparr>)"
    "length idx = 256"
    "\<forall>k < 256. if int k < 0 then idx ! k = index ?loc0 ! k
                 else LittleEndian_Uint32 (prefix_bytes data k) = Returns (word_of_int (idx ! k))
                      \<and> 0 \<le> idx ! k \<and> idx ! k < 2 ^ 32"
    using init_index_loop_ok [of data 0 ?loc0] cap by auto
  let ?loc1 = "?loc0\<lparr>index := idx\<rparr>"
  let ?loc2 = "?loc1\<lparr>indexData1 := replicate (nat ?n) 0,
                     indexData2 := replicate (nat ?n) 0,
                     indexData3 := replicate (nat ?n) 0\<rparr>"
  have "\<exists>loc'. init_entry_loop ?loc2 data ?n 0 = Returns loc' \<and>
           textData loc' = textData ?loc2 \<and> index loc' = index ?loc2 \<and>
           length (indexData1 loc') = length (indexData1 ?loc2) \<and>
           length (indexData2 loc') = length (indexData2 ?loc2) \<and>
           length (indexData3 loc') = length (indexData3 ?loc2)"
  proof (cases "?n = 0")
    case True
    then show ?thesis by (subst init_entry_loop.simps) simp
  next
    case False
    then have "0 < ?n" using n by simp
    then have "?n * 8 \<le> t - 4 - 1024 - 1024" by (rule go_div_8_pos)
    then have "4 + 1024 + ?n * 8 \<le> slice_len data" using hi by simp
    then show ?thesis using n by (intro init_entry_loop_ok) auto
  qed
  then obtain loc' where loc': "init_entry_loop ?loc2 data ?n 0 = Returns loc'"
    "textData loc' = textData ?loc2" "index loc' = index ?loc2"
    "length (indexData1 loc') = length (indexData1 ?loc2)"
    "length (indexData2 loc') = length (indexData2 ?loc2)"
    "length (indexData3 loc') = length (indexData3 ?loc2)"
    by blast
  have "Locator_init loc data = Returns loc'"
    using rt sf idx(1) n loc'(1) by (simp add: Locator_init_def Let_def)
  then show ?thesis using loc' idx(2,3) by simp
qed

lemma Locator_init_short:
  assumes "slice_cap data < 1028"
  shows "\<exists>p. Locator_init loc data = Panics p"
proof (cases "read_textoff data")
  case (Panics p)
  then show ?thesis by (simp add: Locator_init_def)
next
  case (Returns t)
  show ?thesis
  proof (cases "slice_from data (t - 1024)")
    case (Panics p)
    then show ?thesis using Returns by (simp add: Locator_init_def)
  next
    case td: (Returns td)
    obtain p where "init_index_loop (loc\<lparr>textData := td, index := replicate 256 0\<rparr>) data 0 = Panics p"
      using init_index_loop_panics [OF assms, of 0] by auto
    then show ?thesis using Returns td by (simp add: Locator_init_def)
  qed
qed

lemma Locator_init_bad_textoff:
  assumes "read_textoff data = Returns t"
    and "t < 1024 \<or> slice_len data + 1024 < t \<or> go_div (t - 4 - 1024 - 1024) 8 < 0"
  shows "\<exists>p. Locator_init loc data = Panics p"
  using assms
  by (auto simp: Locator_init_def slice_from_def Let_def split: outcome.splits)


text \<open>Every Locator the decoder returns has 256 prefix entries, none negative, and three
  entry arrays of one length.\<close>

lemma NewLocatorWithData_shape:
  assumes "NewLocatorWithData data = Returns loc"
  shows "length (index loc) = 256 \<and> (\<forall>k < 256. 0 \<le> index loc ! k) \<and>
         length (indexData2 loc) = length (indexData1 loc) \<and>
         length (indexData3 loc) = length (indexData1 loc)"
proof -
  obtain t where rt: "read_textoff data = Returns t"
    using assms by (cases "read_textoff data") (simp_all add: NewLocatorWithData_def Locator_init_def)
  have np: "\<not> (\<exists>p. Locator_init zeroLocator data = Panics p)"
    using assms by (simp add: NewLocatorWithData_def)
  have "1028 \<le> slice_cap data"
    using np Locator_init_short [of data zeroLocator] by force
  moreover have "1024 \<le> t \<and> t \<le> slice_len data + 1024 \<and> \<not> go_div (t - 4 - 1024 - 1024) 8 < 0"
    using np Locator_init_bad_textoff [OF rt, of zeroLocator] by force
  ultimately show ?thesis
    using Locator_init_ok [OF rt, of zeroLocator] assms by (auto simp: NewLocatorWithData_def)
qed

subsection \<open>Databases without entries\<close>

lemma prefix_bytes_blank:
  assumes "length header = 4" and "k < 256"
  shows "prefix_bytes (blank_db header tail) k = replicate 4 (CHR 0x00)"
proof -
  have "drop (k * 4) (replicate 1024 (CHR 0x00) @ tail) = replicate (1024 - k * 4) (CHR 0x00) @ tail"
    using assms by simp
  moreover have "4 \<le> 1024 - k * 4" using assms by simp
  ultimately show ?thesis
    using assms by (simp add: prefix_bytes_def blank_db_def min_def)
qed

lemma NewLocatorWithData_blank:
  assumes h: "length header = 4"
    and rt: "read_textoff (blank_db header tail) = Returns t"
    and t: "2045 \<le> t" "t \<le> 2052"
  shows "NewLocatorWithData (blank_db header tail) =
     Returns \<lparr>textData = \<lparr>elems = drop (nat (t - 1024)) (elems (blank_db header tail)), spare = []\<rparr>,
              indexData1 = [], indexData2 = [], indexData3 = [], index = replicate 256 0\<rparr>"
proof -
  let ?d = "blank_db header tail"
  have n0: "go_div (t - 4 - 1024 - 1024) 8 = 0"
    using t by (simp add: go_div_def)
  have len: "slice_len ?d = 1028 + int (length tail)" "slice_cap ?d = 1028 + int (length tail)"
    using h by (simp_all add: slice_len_def slice_cap_def blank_db_def)
  obtain loc' where loc': "Locator_init zeroLocator ?d = Returns loc'"
    "textData loc' = \<lparr>elems = drop (nat (t - 1024)) (elems ?d), spare = spare ?d\<rparr>"
    "length (index loc') = 256"
    "\<forall>k < 256. LittleEndian_Uint32 (prefix_bytes ?d k) = Returns (word_of_int (index loc' ! k))
                    \<and> 0 \<le> index loc' ! k \<and> index loc' ! k < 2 ^ 32"
    "length (indexData1 loc') = nat (go_div (t - 4 - 1024 - 1024) 8)"
    "length (indexData2 loc') = nat (go_div (t - 4 - 1024 - 1024) 8)"
    "length (indexData3 loc') = nat (go_div (t - 4 - 1024 - 1024) 8)"
    using Locator_init_ok [OF rt, of zeroLocator] len t n0 by auto
  have "index loc' ! k = 0" if "k < 256" for k
  proof -
    have "LittleEndian_Uint32 (replicate 4 (CHR 0x00)) = Returns (word_of_int (index loc' ! k))"
      and b: "0 \<le> index loc' ! k" "index loc' ! k < 2 ^ 32"
      using loc'(4) that prefix_bytes_blank [OF h that] by auto
    then have "(word_of_int (index loc' ! k) :: uint32) = 0"
      by (simp add: LittleEndian_Uint32_def)
    then have "uint (word_of_int (index loc' ! k) :: uint32) = 0" by simp
    moreover have "uint (word_of_int (index loc' ! k) :: uint32) = index loc' ! k"
      using b by (simp add: uint_word_of_int take_bit_eq_mod)
    ultimately show ?thesis by simp
  qed
  then have "index loc' = replicate 256 0"
    using loc'(3) by (intro nth_equalityI) auto
  moreover have "spare ?d = []" by (simp add: blank_db_def)
  ultimately have "loc' = \<lparr>textData = \<lparr>elems = drop (nat (t - 1024)) (elems ?d), spare = []\<rparr>,
              indexData1 = [], indexData2 = [], indexData3 = [], index = replicate 256 0\<rparr>"
    using loc'(2,5,6,7) n0 by (cases loc') simp
  then show ?thesis using loc'(1) by (simp add: NewLocatorWithData_def)
qed

lemma read_textoff_blank:
  "read_textoff (blank_db [a, b, c, d] tail) =
     Returns (uint ((of_char d :: uint32) OR push_bit 8 (of_char c) OR push_bit 16 (of_char b)
                    OR push_bit 24 (of_char a)))"
  by (simp add: read_textoff_def slice_to_def slice_cap_def blank_db_def BigEndian_Uint32_def)

subsection \<open>When decoding fails\<close>

text \<open>
  Claim C2, as the code has it. Decoding has no error result: it returns a Locator or
  panics. It panics for every buffer of capacity below 1028 bytes (the offset field and
  the prefix index; for a buffer whose capacity is its length, every buffer shorter than
  1028 bytes). For a buffer whose offset field can be read, it panics exactly when the
  capacity is below 1028, or \<open>textoff\<close> is below 1024 or above the length plus 1024, or
  the number of entries \<open>(textoff - 4 - 1024 - 1024) / 8\<close> is negative, which it is
  exactly for \<open>textoff \<le> 2044\<close>. In all these cases no Locator is produced. A
  \<open>textoff\<close> from 2045 to 2051, below the header size 2052, is decoded as a database
  without entries.
\<close>

theorem NewLocatorWithData_decode_failure:
  "(slice_cap data < 1028 \<longrightarrow> (\<exists>p. NewLocatorWithData data = Panics p)) \<and>
   (read_textoff data = Returns t \<longrightarrow>
      ((\<exists>p. NewLocatorWithData data = Panics p) \<longleftrightarrow>
       (slice_cap data < 1028 \<or> t < 1024 \<or> slice_len data + 1024 < t \<or>
        go_div (t - 4 - 1024 - 1024) 8 < 0))) \<and>
   (go_div (t - 4 - 1024 - 1024) 8 < 0 \<longleftrightarrow> t \<le> 2044)"
proof (intro conjI impI)
  show "\<exists>p. NewLocatorWithData data = Panics p" if "slice_cap data < 1028"
    using Locator_init_short [OF that] by (simp add: NewLocatorWithData_def)
next
  assume rt: "read_textoff data = Returns t"
  show "(\<exists>p. NewLocatorWithData data = Panics p) \<longleftrightarrow>
       (slice_cap data < 1028 \<or> t < 1024 \<or> slice_len data + 1024 < t \<or>
        go_div (t - 4 - 1024 - 1024) 8 < 0)"
  proof
    assume panics: "\<exists>p. NewLocatorWithData data = Panics p"
    show "slice_cap data < 1028 \<or> t < 1024 \<or> slice_len data + 1024 < t \<or>
        go_div (t - 4 - 1024 - 1024) 8 < 0"
    proof (rule ccontr)
      assume "\<not> ?thesis"
      then have "\<exists>loc'. Locator_init zeroLocator data = Returns loc'"
        using Locator_init_ok [OF rt, of zeroLocator] by auto
      then show False using panics by (auto simp: NewLocatorWithData_def)
    qed
  next
    assume "slice_cap data < 1028 \<or> t < 1024 \<or> slice_len data + 1024 < t \<or>
        go_div (t - 4 - 1024 - 1024) 8 < 0"
    then show "\<exists>p. NewLocatorWithData data = Panics p"
      using Locator_init_short [of data zeroLocator]
        Locator_init_bad_textoff [OF rt, of zeroLocator]
      by (auto simp: NewLocatorWithData_def)
  qed
next
  show "go_div (t - 4 - 1024 - 1024) 8 < 0 \<longleftrightarrow> t \<le> 2044"
    using go_div_8_neg [of "t - 4 - 1024 - 1024"] by auto
qed

lemma read_textoff_2044:
  "read_textoff (blank_db [CHR 0x00, CHR 0x00, CHR 0x07, CHR 0xFC] []) = Returns 2044"
  by (simp add: read_textoff_blank)

lemma read_textoff_2048:
  "read_textoff (blank_db [CHR 0x00, CHR 0x00, CHR 0x08, CHR 0x00] []) = Returns 2048"
  by (simp add: read_textoff_blank)

theorem NewLocatorWithData_decode_failure_witness:
  "slice_cap \<lparr>elems = ''abc'', spare = []\<rparr> < 1028 \<and>
   (\<exists>p. NewLocatorWithData \<lparr>elems = ''abc'', spare = []\<rparr> = Panics p) \<and>
   read_textoff (blank_db [CHR 0x00, CHR 0x00, CHR 0x07, CHR 0xFC] []) = Returns 2044 \<and>
   (\<exists>p. NewLocatorWithData (blank_db [CHR 0x00, CHR 0x00, CHR 0x07, CHR 0xFC] []) = Panics p) \<and>
   read_textoff (blank_db [CHR 0x00, CHR 0x00, CHR 0x08, CHR 0x00] []) = Returns 2048 \<and>
   \<not> (\<exists>p. NewLocatorWithData (blank_db [CHR 0x00, CHR 0x00, CHR 0x08, CHR 0x00] []) = Panics p)"
proof -
  have short: "slice_cap \<lparr>elems = ''abc'', spare = []\<rparr> < 1028"
    by (simp add: slice_cap_def)
  have len: "slice_cap (blank_db [CHR 0x00, CHR 0x00, CHR 0x08, CHR 0x00] []) = 1028"
    "slice_len (blank_db [CHR 0x00, CHR 0x00, CHR 0x08, CHR 0x00] []) = 1028"
    by (simp_all add: slice_cap_def slice_len_def blank_db_def)
  have "\<exists>p. NewLocatorWithData \<lparr>elems = ''abc'', spare = []\<rparr> = Panics p"
    using NewLocatorWithData_decode_failure [of "\<lparr>elems = ''abc'', spare = []\<rparr>" 0] short
    by blast
  moreover have
    "\<exists>p. NewLocatorWithData (blank_db [CHR 0x00, CHR 0x00, CHR 0x07, CHR 0xFC] []) = Panics p"
    using NewLocatorWithData_decode_failure
      [of "blank_db [CHR 0x00, CHR 0x00, CHR 0x07, CHR 0xFC] []" 2044] read_textoff_2044
    by simp
  moreover have
    "\<not> (\<exists>p. NewLocatorWithData (blank_db [CHR 0x00, CHR 0x00, CHR 0x08, CHR 0x00] []) = Panics p)"
    using NewLocatorWithData_decode_failure
      [of "blank_db [CHR 0x00, CHR 0x00, CHR 0x08, CHR 0x00] []" 2048] read_textoff_2048 len
    by (simp add: go_div_def)
  ultimately show ?thesis using short read_textoff_2044 read_textoff_2048 by blast
qed

text \<open>
  A three-byte buffer makes the decoder panic; no error value is returned. And the
  1028-byte buffer with \<open>textoff = 2048\<close>, below the header size 2052, decodes to a
  Locator without entries.
\<close>

theorem NewLocatorWithData_DecodeError_counterexample:
  "NewLocatorWithData \<lparr>elems = ''abc'', spare = []\<rparr> = Panics SliceBounds \<and>
   read_textoff (blank_db [CHR 0x00, CHR 0x00, CHR 0x08, CHR 0x00] []) = Returns 2048 \<and>
   NewLocatorWithData (blank_db [CHR 0x00, CHR 0x00, CHR 0x08, CHR 0x00] []) =
     Returns \<lparr>textData = \<lparr>elems = replicate 4 (CHR 0x00), spare = []\<rparr>,
              indexData1 = [], indexData2 = [], indexData3 = [], index = replicate 256 0\<rparr>"
proof -
  have "NewLocatorWithData \<lparr>elems = ''abc'', spare = []\<rparr> = Panics SliceBounds"
    by (simp add: NewLocatorWithData_def Locator_init_def read_textoff_def slice_to_def
        slice_cap_def)
  moreover have "NewLocatorWithData (blank_db [CHR 0x00, CHR 0x00, CHR 0x08, CHR 0x00] []) =
     Returns \<lparr>textData = \<lparr>elems = replicate 4 (CHR 0x00), spare = []\<rparr>,
              indexData1 = [], indexData2 = [], indexData3 = [], index = replicate 256 0\<rparr>"
    using NewLocatorWithData_blank [OF _ read_textoff_2048] by (simp add: blank_db_def)
  ultimately show ?thesis using read_textoff_2048 by simp
qed

section \<open>Properties of the lookup by text\<close>

text \<open>
  Claim C10. When the address parser accepts a text and the address has no four-byte
  form, \<open>To4\<close> gives nil and \<open>binary.BigEndian.Uint32\<close> panics on reading its fourth
  byte: \<open>Find\<close> returns neither the invalid-address error nor a record. The 16 bytes of
  the IPv6 loopback address \<open>::1\<close> are such an address. \<open>Find\<close> returns the
  invalid-address error exactly for the texts the parser rejects.
\<close>

theorem Locator_Find_without_IPv4_form:
  "(ParseIP ipstr = Some ip \<and> To4 ip = [] \<longrightarrow>
      Locator_Find ParseIP locp ipstr = Some (Panics (IndexOutOfRange 3 0))) \<and>
   ((\<exists>info. Locator_Find ParseIP locp ipstr = Some (Returns (info, Some ErrInvalidIp))) \<longleftrightarrow>
      ParseIP ipstr = None) \<and>
   To4 (replicate 15 (CHR 0x00) @ [CHR 0x01]) = []"
proof (intro conjI impI)
  show "Locator_Find ParseIP locp ipstr = Some (Panics (IndexOutOfRange 3 0))"
    if "ParseIP ipstr = Some ip \<and> To4 ip = []"
    using that by (simp add: Locator_Find_def BigEndian_Uint32_def)
next
  show "(\<exists>info. Locator_Find ParseIP locp ipstr = Some (Returns (info, Some ErrInvalidIp))) \<longleftrightarrow>
      ParseIP ipstr = None"
    by (auto simp: Locator_Find_def split: option.splits outcome.splits)
next
  show "To4 (replicate 15 (CHR 0x00) @ [CHR 0x01]) = []"
    by (simp add: To4_def nth_append)
qed

theorem Locator_Find_without_IPv4_form_witness:
  "loopback_parser ''::1'' = Some (replicate 15 (CHR 0x00) @ [CHR 0x01]) \<and>
   Locator_Find loopback_parser (Some loc0) ''::1'' = Some (Panics (IndexOutOfRange 3 0)) \<and>
   loopback_parser ''not-an-ip'' = None \<and>
   Locator_Find loopback_parser (Some loc0) ''not-an-ip'' =
     Some (Returns (None, Some ErrInvalidIp))"
proof -
  have p: "loopback_parser ''::1'' = Some (replicate 15 (CHR 0x00) @ [CHR 0x01])"
    by (simp add: loopback_parser_def)
  have q: "loopback_parser ''not-an-ip'' = None"
    by (simp add: loopback_parser_def)
  have "Locator_Find loopback_parser (Some loc0) ''::1'' = Some (Panics (IndexOutOfRange 3 0))"
    using Locator_Find_without_IPv4_form
      [of loopback_parser "''::1''" "replicate 15 (CHR 0x00) @ [CHR 0x01]" "Some loc0"] p
    by simp
  moreover have "\<exists>info. Locator_Find loopback_parser (Some loc0) ''not-an-ip'' =
      Some (Returns (info, Some ErrInvalidIp))"
    using Locator_Find_without_IPv4_form [of loopback_parser "''not-an-ip''" _ "Some loc0"] q
    by simp
  then have "Locator_Find loopback_parser (Some loc0) ''not-an-ip'' =
      Some (Returns (None, Some ErrInvalidIp))"
    by (auto simp: Locator_Find_def q)
  ultimately show ?thesis using p q by simp
qed

section \<open>Properties of the default instance\<close>

lemma NewLocatorWithData_db0: "NewLocatorWithData db0 = Returns loc0"
proof -
  have "read_textoff db0 = Returns 2052"
    by (simp add: db0_def read_textoff_blank)
  then show ?thesis
    using NewLocatorWithData_blank [of "[CHR 0x00, CHR 0x00, CHR 0x08, CHR 0x04]" "[]" 2052]
    by (simp add: db0_def loc0_def blank_db_def)
qed

lemma NewLocatorWithData_db1: "NewLocatorWithData db1 = Returns loc1"
proof -
  have "read_textoff db1 = Returns 2052"
    by (simp add: db1_def read_textoff_blank)
  then show ?thesis
    using NewLocatorWithData_blank [of "[CHR 0x00, CHR 0x00, CHR 0x08, CHR 0x04]" "''x''" 2052]
    by (simp add: db1_def loc1_def blank_db_def)
qed

lemma NewLocatorWithData_abc:
  "NewLocatorWithData \<lparr>elems = ''abc'', spare = []\<rparr> = Panics SliceBounds"
  by (simp add: NewLocatorWithData_def Locator_init_def read_textoff_def slice_to_def
      slice_cap_def)

lemma NewLocator_disk:
  "NewLocator disk ''a.dat'' = Returns (Some loc0, None)"
  "NewLocator disk ''b.dat'' = Returns (Some loc1, None)"
  "NewLocator disk ''short.dat'' = Panics SliceBounds"
  "NewLocator disk ''gone.dat'' = Returns (None, Some ReadFileError)"
  by (simp_all add: NewLocator_def disk_def NewLocatorWithData_db0 NewLocatorWithData_db1
      NewLocatorWithData_abc)

subsection \<open>What a reload does\<close>

lemma Reload_success:
  assumes "fs dataFile = Inr data" and "NewLocatorWithData data = Returns loc"
  shows "Reload fs reg dataFile =
    Returns (\<lparr>std = Some loc, olddata = newdata reg, newdata = Some loc\<rparr>, None)"
  using assms by (simp add: Reload_def NewLocator_def)

lemma Reload_read_error:
  assumes "fs dataFile = Inl err"
  shows "Reload fs reg dataFile =
    Returns (\<lparr>std = None, olddata = newdata reg, newdata = None\<rparr>, Some err)"
  using assms by (simp add: Reload_def NewLocator_def)

lemma Reload_decode_panic:
  assumes "fs dataFile = Inr data" and "NewLocatorWithData data = Panics p"
  shows "Reload fs reg dataFile = Panics p"
  using assms by (simp add: Reload_def NewLocator_def)

text \<open>\<open>Reload\<close> returns an error only when the file cannot be read, and then \<open>std\<close> is nil.\<close>

lemma Reload_error_clears_std:
  assumes "Reload fs reg dataFile = Returns (reg', Some err)"
  shows "fs dataFile = Inl err \<and> std reg' = None \<and> newdata reg' = None"
  using assms
  by (auto simp: Reload_def NewLocator_def Let_def split: sum.splits outcome.splits)

text \<open>
  From a registry whose active Locator is the one in \<open>newdata\<close>, a successful reload
  keeps the Locator that was active in \<open>olddata\<close>, and the next one drops it.
\<close>

lemma Reload_keeps_previous:
  assumes "std reg = newdata reg"
    and "fs dataFile = Inr data" and "NewLocatorWithData data = Returns loc"
  shows "Reload fs reg dataFile =
    Returns (\<lparr>std = Some loc, olddata = std reg, newdata = Some loc\<rparr>, None)"
  using assms by (simp add: Reload_success)

lemma Reload_twice_drops:
  assumes "fs f1 = Inr d1" and "NewLocatorWithData d1 = Returns l1"
    and "fs f2 = Inr d2" and "NewLocatorWithData d2 = Returns l2"
    and "Reload fs reg f1 = Returns (reg1, e1)" and "Reload fs reg1 f2 = Returns (reg2, e2)"
  shows "reg2 = \<lparr>std = Some l2, olddata = Some l1, newdata = Some l2\<rparr>"
  using assms by (auto simp: Reload_success)

lemma InitWithData_fresh:
  assumes "NewLocatorWithData data = Returns loc"
  shows "InitWithData emptyRegistry data =
    Returns \<lparr>std = Some loc, olddata = None, newdata = None\<rparr>"
  using assms by (simp add: InitWithData_def emptyRegistry_def)

text \<open>So the reload after \<open>InitWithData\<close> keeps nothing, whatever the two databases are.\<close>

lemma InitWithData_then_Reload:
  assumes "NewLocatorWithData d0 = Returns l0"
    and "fs dataFile = Inr d1" and "NewLocatorWithData d1 = Returns l1"
    and "InitWithData emptyRegistry d0 = Returns reg"
  shows "Reload fs reg dataFile =
    Returns (\<lparr>std = Some l1, olddata = None, newdata = Some l1\<rparr>, None)"
  using assms by (auto simp: InitWithData_fresh Reload_success)

subsection \<open>The invariant\<close>

lemma slots_inv_empty: "slots_inv emptyRegistry"
  by (simp add: slots_inv_def emptyRegistry_def)

lemma slots_inv_Init:
  assumes "slots_inv reg" and "Init fs reg dataFile = Returns (reg', err)"
  shows "slots_inv reg'"
  using assms
  by (auto simp: slots_inv_def Init_def Let_def NewLocator_def
      split: if_splits sum.splits outcome.splits)

lemma slots_inv_InitWithData:
  assumes "slots_inv reg" and "InitWithData reg data = Returns reg'"
  shows "slots_inv reg'"
  using assms
  by (auto simp: slots_inv_def InitWithData_def split: if_splits outcome.splits)

lemma slots_inv_Reload:
  assumes "Reload fs reg dataFile = Returns (reg', err)"
  shows "slots_inv reg'" and "std reg' = newdata reg'"
  using assms
  by (auto simp: slots_inv_def Reload_def Let_def split: outcome.splits)

lemma slots_inv_two_generations:
  assumes "slots_inv reg"
  shows "{std reg, olddata reg, newdata reg} - {None} \<subseteq> {std reg, olddata reg}"
  using assms by (auto simp: slots_inv_def)

subsection \<open>A reload that fails\<close>

text \<open>
  Claim C1 does not hold of the code. With \<open>loc0\<close> active after \<open>Init\<close>, a reload from a
  path that cannot be read returns the error, but has overwritten the variables before:
  \<open>std\<close> and \<open>newdata\<close> are nil, and the next lookup through the default instance
  dereferences nil. A reload from a file too short to decode does not return at all: the
  decoder panics.
\<close>

theorem Reload_failure_clears_active:
  "Init disk emptyRegistry ''a.dat'' =
     Returns (\<lparr>std = Some loc0, olddata = Some loc0, newdata = Some loc0\<rparr>, None) \<and>
   Reload disk \<lparr>std = Some loc0, olddata = Some loc0, newdata = Some loc0\<rparr> ''gone.dat'' =
     Returns (\<lparr>std = None, olddata = Some loc0, newdata = None\<rparr>, Some ReadFileError) \<and>
   FindByUint \<lparr>std = None, olddata = Some loc0, newdata = None\<rparr> 0 =
     Some (Panics NilDereference) \<and>
   Reload disk \<lparr>std = Some loc0, olddata = Some loc0, newdata = Some loc0\<rparr> ''short.dat'' =
     Panics SliceBounds"
  by (simp add: Init_def Reload_def emptyRegistry_def NewLocator_disk FindByUint_def
      Locator_FindByUint_def)

subsection \<open>A reload after \<open>InitWithData\<close>\<close>

text \<open>
  Claim C6 does not hold of the code on every path. \<open>InitWithData\<close> sets \<open>std\<close> and
  leaves \<open>olddata\<close> and \<open>newdata\<close> nil; the reload that follows keeps what was in
  \<open>newdata\<close>, so the Locator that was active is not kept for one more reload: it is
  gone at once.
\<close>

theorem InitWithData_Reload_drops_active:
  "InitWithData emptyRegistry db0 =
     Returns \<lparr>std = Some loc0, olddata = None, newdata = None\<rparr> \<and>
   Reload disk \<lparr>std = Some loc0, olddata = None, newdata = None\<rparr> ''b.dat'' =
     Returns (\<lparr>std = Some loc1, olddata = None, newdata = Some loc1\<rparr>, None) \<and>
   loc0 \<noteq> loc1"
  by (simp add: InitWithData_def Reload_def emptyRegistry_def NewLocator_disk
      NewLocatorWithData_db0 loc0_def loc1_def)

end
